theory Spec2Isabelle
  imports Main "HOL-Library.Sublist"
begin

section \<open>Data model of the crawler (src/butler/main.go)\<close>

text \<open>
  A parsed URL is Go's \<^verbatim>\<open>net/url.URL\<close> struct. The program reads and writes the fields
  \<^verbatim>\<open>Scheme\<close>, \<^verbatim>\<open>Host\<close>, \<^verbatim>\<open>Path\<close> and \<^verbatim>\<open>Fragment\<close>; the remaining fields
  of the struct are carried along untouched. The user information is kept as the one string
  it prints as; \<^verbatim>\<open>RawPath\<close> and \<^verbatim>\<open>RawFragment\<close>, which hold an escaped spelling the
  program never looks at, are left out.
\<close>

record URL =
  Scheme :: string
  Opaque :: string
  User :: "string option"
  Host :: string
  Path :: string
  OmitHost :: bool
  ForceQuery :: bool
  RawQuery :: string
  Fragment :: string

text \<open>\<^verbatim>\<open>type task struct { url * url.URL }\<close>\<close>

record task =
  url :: URL

text \<open>
  The \<^verbatim>\<open>reason interface{}\<close> argument of a report: \<^verbatim>\<open>nil\<close>, a string, or the
  \<^verbatim>\<open>error\<close> value of a failed \<^verbatim>\<open>http.Get\<close> (kept by its message).
\<close>

datatype reason = No_reason | Text string | Failure string

text \<open>
  The \<^verbatim>\<open>Reporter\<close> interface is implemented outside this file. A reporter is modelled by
  the calls it has received from \<^verbatim>\<open>report_success\<close>, \<^verbatim>\<open>report_ignored\<close> and
  \<^verbatim>\<open>report_error\<close>, oldest first; the status is a Go \<^verbatim>\<open>uint\<close>.
\<close>

datatype event = Success URL nat | Ignored URL nat reason | Error URL nat reason

type_synonym Reporter = "event list"

fun event_url :: "event \<Rightarrow> URL" where
  "event_url (Success u s) = u"
| "event_url (Ignored u s r) = u"
| "event_url (Error u s r) = u"

fun event_status :: "event \<Rightarrow> nat" where
  "event_status (Success u s) = s"
| "event_status (Ignored u s r) = s"
| "event_status (Error u s r) = s"

fun is_Ignored :: "event \<Rightarrow> bool" where
  "is_Ignored (Ignored u s r) = True"
| "is_Ignored e = False"

text \<open>
  \<^verbatim>\<open>type Crawler struct\<close>. The two Go maps \<^verbatim>\<open>map[string]bool\<close> are partial maps; the
  priority queue holds the pending tasks in the order they were enqueued (the order in which
  the library hands them out is not fixed here: a worker may receive any pending task); the
  \<^verbatim>\<open>sync.WaitGroup\<close> is its counter.
\<close>

record Crawler =
  www :: bool
  domains :: "string \<rightharpoonup> bool"
  queue :: "task list"
  waiter :: int
  known :: "string \<rightharpoonup> bool"
  report_dir :: string
  reporters :: "Reporter list"

text \<open>
  What \<^verbatim>\<open>process_url\<close> uses of an \<^verbatim>\<open>http.Response\<close>: the status code (a Go
  \<^verbatim>\<open>int\<close>), the value of \<^verbatim>\<open>resp.Header.Get("Content-Type")\<close>, and the bytes that
  \<^verbatim>\<open>ioutil.ReadAll(resp.Body)\<close> delivers.
\<close>

record Response =
  StatusCode :: int
  ContentType :: string
  Body :: string

text \<open>
  The functions of Go's standard library and the network that the program calls. They are
  not part of the repository, so the crawler is modelled over an arbitrary instance of them:
  \<^item> \<open>url_String\<close>: \<^verbatim>\<open>(*url.URL).String\<close>;
  \<^item> \<open>url_ResolveReference base ref\<close>: \<^verbatim>\<open>base.ResolveReference(ref)\<close>;
  \<^item> \<open>url_Parse\<close>: \<^verbatim>\<open>url.Parse\<close>, \<open>None\<close> when it returns an error;
  \<^item> \<open>html_UnescapeString\<close>: \<^verbatim>\<open>html.UnescapeString\<close>;
  \<^item> \<open>pattern_FindAll\<close>: \<^verbatim>\<open>pattern.FindAllStringSubmatch(body, -1)\<close>, each match
    \<^verbatim>\<open>m\<close> given by its only group \<^verbatim>\<open>m[1]\<close>;
  \<^item> \<open>http_Get\<close>: \<^verbatim>\<open>http.Get\<close>, \<open>Inl\<close> the error of a failed request.
\<close>

record lib =
  url_String :: "URL \<Rightarrow> string"
  url_ResolveReference :: "URL \<Rightarrow> URL \<Rightarrow> URL"
  url_Parse :: "string \<rightharpoonup> URL"
  html_UnescapeString :: "string \<Rightarrow> string"
  pattern_FindAll :: "string \<Rightarrow> string list"
  http_Get :: "string \<Rightarrow> string + Response"

text \<open>The calls \<^verbatim>\<open>process_url\<close> makes on the network, in the order it makes them.\<close>

datatype io_op = Http_Get string | ReadAll_Body | Close_Body

section \<open>Operations\<close>

text \<open>
  \<^verbatim>\<open>New\<close>, for the absolute, cleaned report directory \<open>dir\<close> (when \<^verbatim>\<open>filepath.Abs\<close>
  fails \<^verbatim>\<open>New\<close> returns its error and no crawler).
\<close>

definition New :: "string \<Rightarrow> Crawler" where
  "New dir = \<lparr>www = False, domains = Map.empty, queue = [], waiter = 0, known = Map.empty,
     report_dir = dir, reporters = []\<rparr>"

definition RegisterReporter :: "Crawler \<Rightarrow> Reporter \<Rightarrow> Crawler" where
  "RegisterReporter c reporter = c\<lparr>reporters := reporters c @ [reporter]\<rparr>"

definition report_success :: "Crawler \<Rightarrow> URL \<Rightarrow> nat \<Rightarrow> Crawler" where
  "report_success c u status = c\<lparr>reporters := map (\<lambda>r. r @ [Success u status]) (reporters c)\<rparr>"

definition report_ignored :: "Crawler \<Rightarrow> URL \<Rightarrow> nat \<Rightarrow> reason \<Rightarrow> Crawler" where
  "report_ignored c u status rsn =
     c\<lparr>reporters := map (\<lambda>r. r @ [Ignored u status rsn]) (reporters c)\<rparr>"

definition report_error :: "Crawler \<Rightarrow> URL \<Rightarrow> nat \<Rightarrow> reason \<Rightarrow> Crawler" where
  "report_error c u status rsn =
     c\<lparr>reporters := map (\<lambda>r. r @ [Error u status rsn]) (reporters c)\<rparr>"

definition allow :: "Crawler \<Rightarrow> string \<Rightarrow> Crawler" where
  "allow c domain = c\<lparr>domains := (domains c)(domain \<mapsto> True)\<rparr>"

text \<open>\<^verbatim>\<open>normalize_host\<close>: \<^verbatim>\<open>host[4:]\<close> is \<open>drop 4 host\<close>.\<close>

definition normalize_host :: "Crawler \<Rightarrow> string \<Rightarrow> string" where
  "normalize_host c host =
    (if prefix ''www.'' host
     then (if www c then host else drop 4 host)
     else (if www c then ''www.'' @ host else host))"

text \<open>
  Lines 80 to 93 of \<^verbatim>\<open>enqueue\<close>: the link as it stands when the known-set is consulted.
  With a base the link is the fresh URL that \<^verbatim>\<open>ResolveReference\<close> returns; without one
  it is the caller's URL, which \<^verbatim>\<open>Load\<close> has just parsed and shares with nobody.
\<close>

definition enqueue_link :: "lib \<Rightarrow> Crawler \<Rightarrow> URL \<Rightarrow> URL option \<Rightarrow> URL" where
  "enqueue_link l c link base =
    (let link1 = (case base of
                    Some b \<Rightarrow> (url_ResolveReference l b link)\<lparr>Fragment := ''''\<rparr>
                  | None \<Rightarrow> link);
         link2 = (if Path link1 = '''' then link1\<lparr>Path := ''/''\<rparr> else link1);
         link3 = link2\<lparr>Fragment := ''''\<rparr>
     in if Host link3 \<noteq> '''' then link3\<lparr>Host := normalize_host c (Host link3)\<rparr> else link3)"

text \<open>
  \<^verbatim>\<open>enqueue\<close>. \<^verbatim>\<open>c.domains[link.Host]\<close> is true exactly when the map holds \<open>True\<close> at the
  host; \<^verbatim>\<open>c.waiter.Add(1)\<close> adds one to the counter; \<^verbatim>\<open>c.queue.Enqueue\<close> adds the task
  to the pending ones.
\<close>

definition enqueue :: "lib \<Rightarrow> Crawler \<Rightarrow> URL \<Rightarrow> URL option \<Rightarrow> Crawler" where
  "enqueue l c link base =
    (let link' = enqueue_link l c link base;
         key = url_String l link'
     in if known c key \<noteq> None then c
        else
          let c1 = c\<lparr>known := (known c)(key \<mapsto> True)\<rparr>
          in if Scheme link' = ''http''
             then (if domains c1 (Host link') = Some True
                   then c1\<lparr>waiter := waiter c1 + 1, queue := queue c1 @ [\<lparr>url = link'\<rparr>]\<rparr>
                   else report_ignored c1 link' 0 (Text ''external domain''))
             else report_ignored c1 link' 0 (Text (''wrong scheme: '' @ Scheme link')))"

text \<open>
  Lines 99 to 113 of \<^verbatim>\<open>enqueue\<close> on their own, for the link \<open>link'\<close> of lines 80 to 93
  that has passed the test of line 95: what a goroutine does once it is past the test.
\<close>

definition enqueue_commit :: "lib \<Rightarrow> Crawler \<Rightarrow> URL \<Rightarrow> Crawler" where
  "enqueue_commit l c link' =
    (let c1 = c\<lparr>known := (known c)(url_String l link' \<mapsto> True)\<rparr>
     in if Scheme link' = ''http''
        then (if domains c1 (Host link') = Some True
              then c1\<lparr>waiter := waiter c1 + 1, queue := queue c1 @ [\<lparr>url = link'\<rparr>]\<rparr>
              else report_ignored c1 link' 0 (Text ''external domain''))
        else report_ignored c1 link' 0 (Text (''wrong scheme: '' @ Scheme link')))"

text \<open>
  The loop over the matches in \<^verbatim>\<open>process_url\<close> (lines 169 to 182). A link that does
  not parse is printed to standard output and skipped; standard output is not modelled.
\<close>

fun process_links :: "lib \<Rightarrow> Crawler \<Rightarrow> URL \<Rightarrow> string list \<Rightarrow> Crawler" where
  "process_links l c page [] = c"
| "process_links l c page (m # ms) =
    (let link = html_UnescapeString l m
     in if prefix ''#'' link then process_links l c page ms
        else (case url_Parse l link of
                None \<Rightarrow> process_links l c page ms
              | Some u \<Rightarrow> process_links l (enqueue l c u (Some page)) page ms))"

text \<open>The conversion \<^verbatim>\<open>uint(resp.StatusCode)\<close> of a 64-bit \<^verbatim>\<open>int\<close>.\<close>

definition to_uint :: "int \<Rightarrow> nat" where
  "to_uint i = nat (i mod 2 ^ 64)"

text \<open>
  \<^verbatim>\<open>process_url\<close>, returning the crawler and the network calls made. The body is read
  right after a successful \<^verbatim>\<open>http.Get\<close>, before the status is looked at (the error of
  \<^verbatim>\<open>ReadAll\<close> is dropped by the source); the deferred \<^verbatim>\<open>Close\<close> runs on every return
  after that.
\<close>

definition process_url :: "lib \<Rightarrow> Crawler \<Rightarrow> URL \<Rightarrow> Crawler \<times> io_op list" where
  "process_url l c page =
    (case http_Get l (url_String l page) of
       Inl err \<Rightarrow> (report_error c page 0 (Failure err), [Http_Get (url_String l page)])
     | Inr resp \<Rightarrow>
         let body = Body resp;
             io = [Http_Get (url_String l page), ReadAll_Body, Close_Body]
         in if StatusCode resp \<noteq> 200
            then (report_error c page (to_uint (StatusCode resp)) No_reason, io)
            else if \<not> prefix ''text/html'' (ContentType resp)
            then (report_ignored c page 0 (Text (''content-type: '' @ ContentType resp)), io)
            else (report_success (process_links l c page (pattern_FindAll l body)) page
                    (to_uint (StatusCode resp)), io))"

text \<open>
  \<^verbatim>\<open>c.waiter.Done()\<close>: the counter goes down by one; a \<^verbatim>\<open>sync.WaitGroup\<close> panics when
  its counter would become negative (\<open>None\<close>).
\<close>

definition Done :: "Crawler \<Rightarrow> Crawler option" where
  "Done c = (if waiter c - 1 < 0 then None else Some (c\<lparr>waiter := waiter c - 1\<rparr>))"

text \<open>
  One round of the worker loop of \<^verbatim>\<open>Run\<close> (lines 129 to 133) for the task \<open>t\<close> that
  \<^verbatim>\<open>c.queue.Dequeue()\<close> hands out: the task leaves the queue, is processed, and the
  tracker is decremented. \<^verbatim>\<open>Dequeue\<close> blocks while nothing is pending, so \<open>t\<close> is one of
  the pending tasks. The rounds of different goroutines are taken one after the other.
\<close>

definition Dequeue :: "Crawler \<Rightarrow> task \<Rightarrow> Crawler" where
  "Dequeue c t = c\<lparr>queue := remove1 t (queue c)\<rparr>"

definition worker_round :: "lib \<Rightarrow> Crawler \<Rightarrow> task \<Rightarrow> Crawler option" where
  "worker_round l c t = Done (fst (process_url l (Dequeue c t) (url t)))"

text \<open>
  \<^verbatim>\<open>Load\<close>. \<^verbatim>\<open>ioutil.ReadFile\<close> followed by \<^verbatim>\<open>json.Unmarshal\<close> delivers either an
  error or a \<^verbatim>\<open>Config\<close>; the loop over the domains stops at the first URL that does not
  parse, and what it has done until then stays done. The result is the crawler and the
  returned \<^verbatim>\<open>err\<close>.
\<close>

record Config =
  Www :: bool
  Domains :: "string list"

datatype load_error = ReadFile_failed | Unmarshal_failed | Parse_failed string

fun Load_domains :: "lib \<Rightarrow> Crawler \<Rightarrow> string list \<Rightarrow> Crawler \<times> load_error option" where
  "Load_domains l c [] = (c, None)"
| "Load_domains l c (d # ds) =
    (let domain = normalize_host c d;
         c1 = allow c domain
     in case url_Parse l (''http://'' @ domain @ ''/'') of
          None \<Rightarrow> (c1, Some (Parse_failed (''http://'' @ domain @ ''/'')))
        | Some u \<Rightarrow> Load_domains l (enqueue l c1 u None) ds)"

definition Load :: "lib \<Rightarrow> Crawler \<Rightarrow> load_error + Config \<Rightarrow> Crawler \<times> load_error option" where
  "Load l c input =
    (case input of
       Inl e \<Rightarrow> (c, Some e)
     | Inr config \<Rightarrow> Load_domains l (c\<lparr>www := Www config\<rparr>) (Domains config))"

section \<open>Keys, invariants and runs\<close>

text \<open>The dedup key of a task and of a report: the string of its URL.\<close>

definition task_key :: "lib \<Rightarrow> task \<Rightarrow> string" where
  "task_key l t = url_String l (url t)"

definition event_key :: "lib \<Rightarrow> event \<Rightarrow> string" where
  "event_key l e = url_String l (event_url e)"


text \<open>
  \<open>admits l c c'\<close>: \<open>c'\<close> comes from \<open>c\<close> by admitting links. Tasks \<open>new\<close> were
  appended to the queue and counted by the tracker, every reporter received the same
  reports \<open>evs\<close>, all of them ignored reports with status 0; the keys of \<open>new\<close> and
  \<open>evs\<close> are pairwise different, were unknown in \<open>c\<close> and are known in \<open>c'\<close>; and the
  known-set has lost nothing.
\<close>

definition admits :: "lib \<Rightarrow> Crawler \<Rightarrow> Crawler \<Rightarrow> bool" where
  "admits l c c' \<longleftrightarrow>
     (\<exists>new evs.
        queue c' = queue c @ new \<and>
        reporters c' = map (\<lambda>r. r @ evs) (reporters c) \<and>
        waiter c' = waiter c + int (length new) \<and>
        distinct (map (task_key l) new @ map (event_key l) evs) \<and>
        (\<forall>k \<in> set (map (task_key l) new @ map (event_key l) evs).
           known c k = None \<and> known c' k \<noteq> None) \<and>
        (\<forall>e \<in> set evs. is_Ignored e \<and> event_status e = 0) \<and>
        (\<forall>k. known c k \<noteq> None \<longrightarrow> known c' k = known c k))"

text \<open>The tasks that were appended to the queue between \<open>c\<close> and \<open>c'\<close>.\<close>

definition new_tasks :: "Crawler \<Rightarrow> Crawler \<Rightarrow> task list" where
  "new_tasks c c' = drop (length (queue c)) (queue c')"

text \<open>The reports that the reporter number \<open>i\<close> received between \<open>c\<close> and \<open>c'\<close>.\<close>

definition new_events :: "Crawler \<Rightarrow> Crawler \<Rightarrow> nat \<Rightarrow> event list" where
  "new_events c c' i = drop (length (reporters c ! i)) (reporters c' ! i)"

text \<open>
  The main goroutine before \<^verbatim>\<open>Run\<close>, as \<^verbatim>\<open>main\<close> drives it: a crawler is made,
  reporters are registered and configurations are loaded. \<open>before_run l c h\<close>: the crawler is
  \<open>c\<close> and \<open>h\<close> lists the tasks enqueued so far, in order.
\<close>

inductive before_run :: "lib \<Rightarrow> Crawler \<Rightarrow> task list \<Rightarrow> bool" for l :: lib where
  start: "before_run l (New dir) []"
| register: "before_run l c h \<Longrightarrow> before_run l (RegisterReporter c []) h"
| load: "before_run l c h \<Longrightarrow> Load l c input = (c', err) \<Longrightarrow> before_run l c' (h @ new_tasks c c')"

text \<open>
  A goroutine of the pool that \<^verbatim>\<open>Run\<close> starts (lines 128 to 134), by where it stands:
  blocked in \<^verbatim>\<open>Dequeue\<close>; holding a task it has not fetched yet; in the loop over the
  matches of a page, with the status of the page and the matches still to come; inside
  \<^verbatim>\<open>enqueue\<close> between the test of line 95, which its link has passed, and line 99; and
  back from \<^verbatim>\<open>process_url\<close>, before \<^verbatim>\<open>c.waiter.Done()\<close>.
\<close>

datatype worker =
  Idle
| Got task
| Links URL nat "string list"
| Passed URL nat "string list" URL
| Reported

text \<open>
  One step of one goroutine on the crawler that all of them share. The crawler has no lock,
  so another goroutine may take its steps between any two of these; in particular between
  the known-set test of \<^verbatim>\<open>enqueue\<close> and the insertion that follows it. A step is not
  divided further, and what the Go runtime does on unsynchronised access to a map is not
  modelled.
\<close>

inductive goroutine_step :: "lib \<Rightarrow> Crawler \<times> worker \<Rightarrow> Crawler \<times> worker \<Rightarrow> bool"
  for l :: lib where
  take: "t \<in> set (queue c) \<Longrightarrow> goroutine_step l (c, Idle) (Dequeue c t, Got t)"
| fetch_failed: "http_Get l (url_String l (url t)) = Inl err \<Longrightarrow>
     goroutine_step l (c, Got t) (report_error c (url t) 0 (Failure err), Reported)"
| fetch_status: "http_Get l (url_String l (url t)) = Inr resp \<Longrightarrow> StatusCode resp \<noteq> 200 \<Longrightarrow>
     goroutine_step l (c, Got t)
       (report_error c (url t) (to_uint (StatusCode resp)) No_reason, Reported)"
| fetch_type: "http_Get l (url_String l (url t)) = Inr resp \<Longrightarrow> StatusCode resp = 200 \<Longrightarrow>
     \<not> prefix ''text/html'' (ContentType resp) \<Longrightarrow>
     goroutine_step l (c, Got t)
       (report_ignored c (url t) 0 (Text (''content-type: '' @ ContentType resp)), Reported)"
| fetch_html: "http_Get l (url_String l (url t)) = Inr resp \<Longrightarrow> StatusCode resp = 200 \<Longrightarrow>
     prefix ''text/html'' (ContentType resp) \<Longrightarrow>
     goroutine_step l (c, Got t)
       (c, Links (url t) (to_uint (StatusCode resp)) (pattern_FindAll l (Body resp)))"
| skip_fragment: "prefix ''#'' (html_UnescapeString l m) \<Longrightarrow>
     goroutine_step l (c, Links page s (m # ms)) (c, Links page s ms)"
| skip_invalid: "\<not> prefix ''#'' (html_UnescapeString l m) \<Longrightarrow>
     url_Parse l (html_UnescapeString l m) = None \<Longrightarrow>
     goroutine_step l (c, Links page s (m # ms)) (c, Links page s ms)"
| test_known: "\<not> prefix ''#'' (html_UnescapeString l m) \<Longrightarrow>
     url_Parse l (html_UnescapeString l m) = Some u \<Longrightarrow>
     known c (url_String l (enqueue_link l c u (Some page))) \<noteq> None \<Longrightarrow>
     goroutine_step l (c, Links page s (m # ms)) (c, Links page s ms)"
| test_new: "\<not> prefix ''#'' (html_UnescapeString l m) \<Longrightarrow>
     url_Parse l (html_UnescapeString l m) = Some u \<Longrightarrow>
     known c (url_String l (enqueue_link l c u (Some page))) = None \<Longrightarrow>
     goroutine_step l (c, Links page s (m # ms))
       (c, Passed page s ms (enqueue_link l c u (Some page)))"
| commit: "goroutine_step l (c, Passed page s ms link') (enqueue_commit l c link', Links page s ms)"
| success: "goroutine_step l (c, Links page s []) (report_success c page s, Reported)"
| finish: "Done c = Some c' \<Longrightarrow> goroutine_step l (c, Reported) (c', Idle)"

text \<open>
  The runs of the pool. \<^verbatim>\<open>Run\<close> starts \<^verbatim>\<open>pool_size + 1\<close> goroutines (the loop runs
  while \<^verbatim>\<open>i <= pool_size\<close>) after the setup, and then any goroutine may take the next
  step. \<open>run l c ws h\<close>: the crawler is \<open>c\<close>, the goroutines stand at \<open>ws\<close>, and \<open>h\<close>
  lists the tasks enqueued so far.
\<close>

inductive run :: "lib \<Rightarrow> Crawler \<Rightarrow> worker list \<Rightarrow> task list \<Rightarrow> bool" for l :: lib where
  launch: "before_run l c h \<Longrightarrow> run l c (replicate (nat (pool_size + 1)) Idle) h"
| step: "run l c ws h \<Longrightarrow> i < length ws \<Longrightarrow> goroutine_step l (c, ws ! i) (c', w') \<Longrightarrow>
         run l c' (ws[i := w']) (h @ new_tasks c c')"

text \<open>
  \<open>crawl l c h\<close>: the program can reach the crawler \<open>c\<close>, having enqueued the tasks \<open>h\<close>,
  before or after \<^verbatim>\<open>Run\<close> has started its goroutines.
\<close>

definition crawl :: "lib \<Rightarrow> Crawler \<Rightarrow> task list \<Rightarrow> bool" where
  "crawl l c h \<longleftrightarrow> before_run l c h \<or> (\<exists>ws. run l c ws h)"

text \<open>
  The runs in which the goroutines take turns by whole rounds: a round of the worker loop,
  once begun, runs to its end before another begins. Two calls of \<^verbatim>\<open>enqueue\<close> then never
  overlap.
\<close>

inductive serial_crawl :: "lib \<Rightarrow> Crawler \<Rightarrow> task list \<Rightarrow> bool" for l :: lib where
  from_before_run: "before_run l c h \<Longrightarrow> serial_crawl l c h"
| work: "serial_crawl l c h \<Longrightarrow> t \<in> set (queue c) \<Longrightarrow> worker_round l c t = Some c' \<Longrightarrow>
         serial_crawl l c' (h @ new_tasks (Dequeue c t) c')"


text \<open>
  The report that \<^verbatim>\<open>process_url\<close> makes for the page itself, by the answer of
  \<^verbatim>\<open>http.Get\<close>: the last call on each of its four paths.
\<close>

definition page_report :: "lib \<Rightarrow> URL \<Rightarrow> event" where
  "page_report l page =
    (case http_Get l (url_String l page) of
       Inl err \<Rightarrow> Error page 0 (Failure err)
     | Inr resp \<Rightarrow>
         if StatusCode resp \<noteq> 200 then Error page (to_uint (StatusCode resp)) No_reason
         else if \<not> prefix ''text/html'' (ContentType resp)
         then Ignored page 0 (Text (''content-type: '' @ ContentType resp))
         else Success page (to_uint (StatusCode resp)))"

text \<open>
  The two outcomes of a call of \<^verbatim>\<open>enqueue\<close>, read off the crawler before and after it:
  the link became a pending task and the tracker went up by one, with no report; or every
  reporter received one ignored report for the link, with no task and no change of the
  tracker.
\<close>

definition outcome_enqueued :: "lib \<Rightarrow> Crawler \<Rightarrow> URL \<Rightarrow> URL option \<Rightarrow> bool" where
  "outcome_enqueued l c link base =
    (let c' = enqueue l c link base; link' = enqueue_link l c link base
     in queue c' = queue c @ [\<lparr>url = link'\<rparr>] \<and> waiter c' = waiter c + 1 \<and>
        reporters c' = reporters c)"

definition reject_reason :: "URL \<Rightarrow> reason" where
  "reject_reason link' =
    (if Scheme link' = ''http'' then Text ''external domain''
     else Text (''wrong scheme: '' @ Scheme link'))"

definition outcome_ignored :: "lib \<Rightarrow> Crawler \<Rightarrow> URL \<Rightarrow> URL option \<Rightarrow> bool" where
  "outcome_ignored l c link base =
    (let c' = enqueue l c link base; link' = enqueue_link l c link base
     in queue c' = queue c \<and> waiter c' = waiter c \<and>
        reporters c' = map (\<lambda>r. r @ [Ignored link' 0 (reject_reason link')]) (reporters c))"

section \<open>An instance of the library, for running the crawler on examples\<close>

text \<open>
  A small \<^verbatim>\<open>net/url\<close>, following the library's \<^verbatim>\<open>Parse\<close>, \<^verbatim>\<open>String\<close> and
  \<^verbatim>\<open>ResolveReference\<close> (with its removal of dot segments) on URLs that need no
  escaping: texts without \<^verbatim>\<open>%\<close>, \<^verbatim>\<open>@\<close>, brackets, blanks and control characters,
  with a host of letters, digits, dots and hyphens and a port of digits. What the library
  rejects or escapes outside of these is not followed. With it come an
  \<^verbatim>\<open>UnescapeString\<close> for text without entities, a network of four pages, and a link
  extractor that knows the anchors of the two pages that have any.
\<close>

definition cut :: "char \<Rightarrow> string \<Rightarrow> string \<times> string" where
  "cut ch s = (takeWhile (\<lambda>x. x \<noteq> ch) s, drop 1 (dropWhile (\<lambda>x. x \<noteq> ch) s))"

fun split_on :: "char \<Rightarrow> string \<Rightarrow> string list" where
  "split_on ch [] = [[]]"
| "split_on ch (x # xs) =
    (if x = ch then [] # split_on ch xs
     else (case split_on ch xs of y # ys \<Rightarrow> (x # y) # ys | [] \<Rightarrow> [[x]]))"

definition to_lower :: "string \<Rightarrow> string" where
  "to_lower s = map (\<lambda>x. case map_of (zip ''ABCDEFGHIJKLMNOPQRSTUVWXYZ''
                                              ''abcdefghijklmnopqrstuvwxyz'') x of
                           Some y \<Rightarrow> y | None \<Rightarrow> x) s"

fun getScheme :: "string \<Rightarrow> string \<Rightarrow> (string \<times> string) option" where
  "getScheme seen [] = Some ('''', seen)"
| "getScheme seen (ch # rest) =
    (if ch \<in> set ''abcdefghijklmnopqrstuvwxyzABCDEFGHIJKLMNOPQRSTUVWXYZ''
     then getScheme (seen @ [ch]) rest
     else if ch \<in> set ''0123456789+-.''
     then (if seen = '''' then Some ('''', ch # rest) else getScheme (seen @ [ch]) rest)
     else if ch = CHR '':''
     then (if seen = '''' then None else Some (seen, rest))
     else Some ('''', seen @ ch # rest))"

definition demo_Parse :: "string \<rightharpoonup> URL" where
  "demo_Parse rawURL =
    (let (u, frag) = cut CHR ''#'' rawURL
     in case getScheme '''' u of
          None \<Rightarrow> None
        | Some (scheme0, rest0) \<Rightarrow>
            let scheme = to_lower scheme0;
                force = (rest0 \<noteq> '''' \<and> last rest0 = CHR ''?'' \<and>
                         length (filter (\<lambda>x. x = CHR ''?'') rest0) = 1);
                (rest, query) = (if force then (butlast rest0, '''') else cut CHR ''?'' rest0);
                url = \<lparr>Scheme = scheme, Opaque = '''', User = None, Host = '''', Path = '''',
                        OmitHost = False, ForceQuery = force, RawQuery = query, Fragment = frag\<rparr>
            in if u = ''*'' then Some (url\<lparr>Scheme := '''', Path := ''*''\<rparr>)
               else if \<not> prefix ''/'' rest \<and> scheme \<noteq> '''' then Some (url\<lparr>Opaque := rest\<rparr>)
               else if \<not> prefix ''/'' rest \<and> CHR '':'' \<in> set (fst (cut CHR ''/'' rest)) then None
               else if (scheme \<noteq> '''' \<or> \<not> prefix ''///'' rest) \<and> prefix ''//'' rest
               then Some (url\<lparr>Host := takeWhile (\<lambda>x. x \<noteq> CHR ''/'') (drop 2 rest),
                               Path := dropWhile (\<lambda>x. x \<noteq> CHR ''/'') (drop 2 rest)\<rparr>)
               else if scheme \<noteq> '''' \<and> prefix ''/'' rest
               then Some (url\<lparr>OmitHost := True, Path := rest\<rparr>)
               else Some (url\<lparr>Path := rest\<rparr>))"

definition demo_String :: "URL \<Rightarrow> string" where
  "demo_String u =
    (let scheme = (if Scheme u \<noteq> '''' then Scheme u @ '':'' else '''');
         authority =
           (if Scheme u \<noteq> '''' \<or> Host u \<noteq> '''' \<or> User u \<noteq> None
            then (if OmitHost u \<and> Host u = '''' \<and> User u = None then ''''
                  else (if Host u \<noteq> '''' \<or> Path u \<noteq> '''' \<or> User u \<noteq> None then ''//'' else '''') @
                       (case User u of Some ui \<Rightarrow> ui @ ''@'' | None \<Rightarrow> '''') @ Host u)
            else '''');
         slash = (if Path u \<noteq> '''' \<and> \<not> prefix ''/'' (Path u) \<and> Host u \<noteq> '''' then ''/'' else '''');
         dot = (if scheme @ authority @ slash = '''' \<and> CHR '':'' \<in> set (fst (cut CHR ''/'' (Path u)))
                then ''./'' else '''')
     in scheme @
        (if Opaque u \<noteq> '''' then Opaque u else authority @ slash @ dot @ Path u) @
        (if ForceQuery u \<or> RawQuery u \<noteq> '''' then ''?'' @ RawQuery u else '''') @
        (if Fragment u \<noteq> '''' then ''#'' @ Fragment u else ''''))"

definition dot_step :: "string \<times> bool \<Rightarrow> string \<Rightarrow> string \<times> bool" where
  "dot_step st elem =
    (let (dst, first) = st
     in if elem = ''.'' then (dst, False)
        else if elem = ''..''
        then (if CHR ''/'' \<in> set dst
              then (rev (drop 1 (dropWhile (\<lambda>x. x \<noteq> CHR ''/'') (rev dst))), first)
              else ('''', True))
        else ((if first then dst else dst @ ''/'') @ elem, False))"

definition resolvePath :: "string \<Rightarrow> string \<Rightarrow> string" where
  "resolvePath base ref =
    (let full = (if ref = '''' then base
                 else if \<not> prefix ''/'' ref
                 then rev (dropWhile (\<lambda>x. x \<noteq> CHR ''/'') (rev base)) @ ref
                 else ref)
     in if full = '''' then ''''
        else
          let elems = split_on CHR ''/'' full;
              dst = fst (foldl dot_step ('''', True) elems);
              dst' = (if last elems = ''.'' \<or> last elems = ''..'' then dst @ ''/'' else dst)
          in if prefix ''/'' dst' then dst' else ''/'' @ dst')"

definition demo_ResolveReference :: "URL \<Rightarrow> URL \<Rightarrow> URL" where
  "demo_ResolveReference u ref =
    (let url = (if Scheme ref = '''' then ref\<lparr>Scheme := Scheme u\<rparr> else ref)
     in if Scheme ref \<noteq> '''' \<or> Host ref \<noteq> '''' \<or> User ref \<noteq> None
        then url\<lparr>Path := resolvePath (Path ref) ''''\<rparr>
        else if Opaque ref \<noteq> '''' then url\<lparr>User := None, Host := '''', Path := ''''\<rparr>
        else
          let url1 = (if Path ref = '''' \<and> \<not> ForceQuery ref \<and> RawQuery ref = ''''
                      then (url\<lparr>RawQuery := RawQuery u\<rparr>)
                             \<lparr>Fragment := (if Fragment ref = '''' then Fragment u else Fragment ref)\<rparr>
                      else url)
          in if Path ref = '''' \<and> Opaque u \<noteq> ''''
             then url1\<lparr>Opaque := Opaque u, User := None, Host := '''', Path := ''''\<rparr>
             else url1\<lparr>Host := Host u, User := User u, Path := resolvePath (Path u) (Path ref)\<rparr>)"

definition demo_page :: string where
  \<open>demo_page = ''<a href="/about">About</a> <a href="https://example.com/x">x</a> <a href="http://other.com/">o</a>''\<close>

definition demo_page2 :: string where
  \<open>demo_page2 = ''<a href="http://example.com/about">About</a> <a href="https://example.com/x">x</a>''\<close>

definition demo_FindAll :: "string \<Rightarrow> string list" where
  "demo_FindAll body =
    (if body = demo_page then [''/about'', ''https://example.com/x'', ''http://other.com/'']
     else if body = demo_page2 then [''http://example.com/about'', ''https://example.com/x'']
     else [])"

definition demo_Get :: "string \<Rightarrow> string + Response" where
  "demo_Get s =
    (if s = ''http://example.com/''
     then Inr \<lparr>StatusCode = 200, ContentType = ''text/html; charset=utf-8'', Body = demo_page\<rparr>
     else if s = ''http://example.com/about''
     then Inr \<lparr>StatusCode = 404, ContentType = ''text/html'', Body = ''not found''\<rparr>
     else if s = ''http://example.com/data''
     then Inr \<lparr>StatusCode = 200, ContentType = ''application/json'', Body = ''{}''\<rparr>
     else if s = ''http://example.org/''
     then Inr \<lparr>StatusCode = 200, ContentType = ''text/html'', Body = demo_page2\<rparr>
     else Inl ''no such host'')"

definition demo_lib :: lib where
  "demo_lib = \<lparr>url_String = demo_String, url_ResolveReference = demo_ResolveReference,
     url_Parse = demo_Parse, html_UnescapeString = (\<lambda>s. s), pattern_FindAll = demo_FindAll,
     http_Get = demo_Get\<rparr>"

text \<open>
  A run on that network, state by state: a crawler with one reporter; the crawler after
  loading the configuration \<^verbatim>\<open>{"www": false, "domains": ["example.com"]}\<close>; and the crawler
  after one worker round on the seed, whose page links to \<^verbatim>\<open>/about\<close>, to an
  \<^verbatim>\<open>https\<close> URL and to another domain.
\<close>

definition demo_start :: Crawler where
  "demo_start = RegisterReporter (New ''/report'') []"

definition demo_config :: Config where
  "demo_config = \<lparr>Www = False, Domains = [''example.com'']\<rparr>"

definition demo_url :: "string \<Rightarrow> string \<Rightarrow> string \<Rightarrow> URL" where
  "demo_url scheme host path = \<lparr>Scheme = scheme, Opaque = '''', User = None, Host = host,
     Path = path, OmitHost = False, ForceQuery = False, RawQuery = '''', Fragment = ''''\<rparr>"

definition demo_seed :: task where
  "demo_seed = \<lparr>url = demo_url ''http'' ''example.com'' ''/''\<rparr>"

definition demo_about :: task where
  "demo_about = \<lparr>url = demo_url ''http'' ''example.com'' ''/about''\<rparr>"

definition demo_seeded :: Crawler where
  "demo_seeded = \<lparr>www = False, domains = [''example.com'' \<mapsto> True], queue = [demo_seed],
     waiter = 1, known = [''http://example.com/'' \<mapsto> True], report_dir = ''/report'',
     reporters = [[]]\<rparr>"

definition demo_crawled :: Crawler where
  "demo_crawled = \<lparr>www = False, domains = [''example.com'' \<mapsto> True], queue = [demo_about],
     waiter = 1,
     known = [''http://example.com/'' \<mapsto> True, ''http://example.com/about'' \<mapsto> True,
              ''https://example.com/x'' \<mapsto> True, ''http://other.com/'' \<mapsto> True],
     report_dir = ''/report'',
     reporters = [[Ignored (demo_url ''https'' ''example.com'' ''/x'') 0 (Text ''wrong scheme: https''),
                   Ignored (demo_url ''http'' ''other.com'' ''/'') 0 (Text ''external domain''),
                   Success (url demo_seed) 200]]\<rparr>"

text \<open>
  Two links to the same page: the parsed \<^verbatim>\<open>/about\<close>, and the parsed
  \<^verbatim>\<open>http://www.example.com/about#team\<close>.
\<close>

definition demo_rel :: URL where
  "demo_rel = demo_url [] [] ''/about''"

definition demo_alias :: URL where
  "demo_alias = (demo_url ''http'' ''www.example.com'' ''/about'')\<lparr>Fragment := ''team''\<rparr>"

text \<open>A configuration whose domain starts with \<^verbatim>\<open>www.\<close> twice.\<close>

definition demo_config_www :: Config where
  "demo_config_www = \<lparr>Www = False, Domains = [''www.www.example.com'']\<rparr>"

text \<open>
  Three more URLs: a page that is served as JSON, a link with the scheme \<^verbatim>\<open>https\<close>, and
  the crawler after that link was admitted and another domain was allowed.
\<close>

definition demo_data :: URL where
  "demo_data = demo_url ''http'' ''example.com'' ''/data''"

definition demo_https :: URL where
  "demo_https = demo_url ''https'' ''example.com'' ''/x''"








section \<open>How admitting links changes the crawler\<close>

lemmas report_defs = report_success_def report_ignored_def report_error_def

lemma enqueue_known:
  "known c (url_String l (enqueue_link l c link base)) \<noteq> None \<Longrightarrow> enqueue l c link base = c"
  by (simp add: enqueue_def Let_def)

lemma enqueue_admitted:
  assumes "known c (url_String l (enqueue_link l c link base)) = None"
    and "Scheme (enqueue_link l c link base) = ''http''"
    and "domains c (Host (enqueue_link l c link base)) = Some True"
  shows "enqueue l c link base =
    c\<lparr>known := (known c)(url_String l (enqueue_link l c link base) \<mapsto> True),
      waiter := waiter c + 1,
      queue := queue c @ [\<lparr>url = enqueue_link l c link base\<rparr>]\<rparr>"
  using assms by (simp add: enqueue_def Let_def)

lemma enqueue_external:
  assumes "known c (url_String l (enqueue_link l c link base)) = None"
    and "Scheme (enqueue_link l c link base) = ''http''"
    and "domains c (Host (enqueue_link l c link base)) \<noteq> Some True"
  shows "enqueue l c link base =
    report_ignored (c\<lparr>known := (known c)(url_String l (enqueue_link l c link base) \<mapsto> True)\<rparr>)
      (enqueue_link l c link base) 0 (Text ''external domain'')"
  using assms by (simp add: enqueue_def Let_def)

lemma enqueue_wrong_scheme:
  assumes "known c (url_String l (enqueue_link l c link base)) = None"
    and "Scheme (enqueue_link l c link base) \<noteq> ''http''"
  shows "enqueue l c link base =
    report_ignored (c\<lparr>known := (known c)(url_String l (enqueue_link l c link base) \<mapsto> True)\<rparr>)
      (enqueue_link l c link base) 0
      (Text (''wrong scheme: '' @ Scheme (enqueue_link l c link base)))"
  using assms by (simp add: enqueue_def Let_def)

lemma enqueue_link_www: "www c' = www c \<Longrightarrow> enqueue_link l c' link base = enqueue_link l c link base"
  by (simp add: enqueue_link_def normalize_host_def Let_def)

lemma www_enqueue: "www (enqueue l c link base) = www c"
  by (simp add: enqueue_def Let_def report_ignored_def)

lemma known_after_enqueue:
  "known (enqueue l c link base) (url_String l (enqueue_link l c link base)) \<noteq> None"
  by (auto simp: enqueue_def Let_def report_ignored_def)

lemma enqueue_link_Fragment: "Fragment (enqueue_link l c link base) = ''''"
  by (simp add: enqueue_link_def Let_def)

lemma enqueue_link_Path: "Path (enqueue_link l c link base) \<noteq> ''''"
  by (simp add: enqueue_link_def Let_def)

lemma enqueue_link_drop_Fragment:
  "enqueue_link l c (link\<lparr>Fragment := f\<rparr>) None = enqueue_link l c link None"
  by (simp add: enqueue_link_def Let_def)

lemma admits_refl: "admits l c c"
  unfolding admits_def by (rule exI[of _ "[]"], rule exI[of _ "[]"]) (simp add: map_idI)

lemma admits_trans:
  assumes "admits l c c'" and "admits l c' c''"
  shows "admits l c c''"
proof -
  from assms(1) obtain n1 e1 where a:
    "queue c' = queue c @ n1" "reporters c' = map (\<lambda>r. r @ e1) (reporters c)"
    "waiter c' = waiter c + int (length n1)"
    "distinct (map (task_key l) n1 @ map (event_key l) e1)"
    "\<forall>k \<in> set (map (task_key l) n1 @ map (event_key l) e1). known c k = None \<and> known c' k \<noteq> None"
    "\<forall>e \<in> set e1. is_Ignored e \<and> event_status e = 0"
    "\<forall>k. known c k \<noteq> None \<longrightarrow> known c' k = known c k"
    unfolding admits_def by blast
  from assms(2) obtain n2 e2 where b:
    "queue c'' = queue c' @ n2" "reporters c'' = map (\<lambda>r. r @ e2) (reporters c')"
    "waiter c'' = waiter c' + int (length n2)"
    "distinct (map (task_key l) n2 @ map (event_key l) e2)"
    "\<forall>k \<in> set (map (task_key l) n2 @ map (event_key l) e2). known c' k = None \<and> known c'' k \<noteq> None"
    "\<forall>e \<in> set e2. is_Ignored e \<and> event_status e = 0"
    "\<forall>k. known c' k \<noteq> None \<longrightarrow> known c'' k = known c' k"
    unfolding admits_def by blast
  have old: "\<And>k. known c k \<noteq> None \<Longrightarrow> known c' k \<noteq> None" using a(7) by simp
  have q: "queue c'' = queue c @ (n1 @ n2)" using a(1) b(1) by simp
  have r: "reporters c'' = map (\<lambda>r. r @ (e1 @ e2)) (reporters c)" using a(2) b(2) by simp
  have w: "waiter c'' = waiter c + int (length (n1 @ n2))" using a(3) b(3) by simp
  have k1: "\<And>k. k \<in> set (map (task_key l) n1 @ map (event_key l) e1) \<Longrightarrow>
              known c k = None \<and> known c' k \<noteq> None \<and> known c'' k \<noteq> None"
    using a(5) b(7) by metis
  have k2: "\<And>k. k \<in> set (map (task_key l) n2 @ map (event_key l) e2) \<Longrightarrow>
              known c k = None \<and> known c' k = None \<and> known c'' k \<noteq> None"
    using b(5) old by metis
  have disj: "set (map (task_key l) n1 @ map (event_key l) e1) \<inter>
              set (map (task_key l) n2 @ map (event_key l) e2) = {}"
    using k1 k2 by blast
  have d: "distinct (map (task_key l) (n1 @ n2) @ map (event_key l) (e1 @ e2))"
    using a(4) b(4) disj by (simp add: Int_Un_distrib Int_Un_distrib2) blast
  have k: "\<forall>k \<in> set (map (task_key l) (n1 @ n2) @ map (event_key l) (e1 @ e2)).
             known c k = None \<and> known c'' k \<noteq> None"
  proof
    fix k assume "k \<in> set (map (task_key l) (n1 @ n2) @ map (event_key l) (e1 @ e2))"
    then have "k \<in> set (map (task_key l) n1 @ map (event_key l) e1) \<or>
               k \<in> set (map (task_key l) n2 @ map (event_key l) e2)" by auto
    then show "known c k = None \<and> known c'' k \<noteq> None" using k1 k2 by blast
  qed
  have i: "\<forall>e \<in> set (e1 @ e2). is_Ignored e \<and> event_status e = 0" using a(6) b(6) by auto
  have m: "\<forall>k. known c k \<noteq> None \<longrightarrow> known c'' k = known c k" using a(7) b(7) by metis
  show ?thesis unfolding admits_def using q r w d k i m by blast
qed

lemma admits_enqueue: "admits l c (enqueue l c link base)"
proof (cases "known c (url_String l (enqueue_link l c link base)) = None")
  case False
  then show ?thesis by (simp add: enqueue_known admits_refl)
next
  case fresh: True
  let ?u = "enqueue_link l c link base"
  show ?thesis
  proof (cases "Scheme ?u = ''http'' \<and> domains c (Host ?u) = Some True")
    case True
    then have "enqueue l c link base =
      c\<lparr>known := (known c)(url_String l ?u \<mapsto> True), waiter := waiter c + 1,
        queue := queue c @ [\<lparr>url = ?u\<rparr>]\<rparr>"
      using fresh by (simp add: enqueue_admitted)
    then show ?thesis unfolding admits_def using fresh
      by (intro exI[of _ "[\<lparr>url = ?u\<rparr>]"] exI[of _ "[]"]) (simp add: task_key_def map_idI)
  next
    case False
    then obtain rsn where "enqueue l c link base =
      report_ignored (c\<lparr>known := (known c)(url_String l ?u \<mapsto> True)\<rparr>) ?u 0 rsn"
      using fresh enqueue_external[of c l link base] enqueue_wrong_scheme[of c l link base]
      by blast
    then show ?thesis unfolding admits_def using fresh
      by (intro exI[of _ "[]"] exI[of _ "[Ignored ?u 0 rsn]"])
         (simp add: event_key_def report_ignored_def)
  qed
qed


lemma admits_process_links: "admits l c (process_links l c page ms)"
proof (induction ms arbitrary: c)
  case Nil
  show ?case by (simp add: admits_refl)
next
  case (Cons m ms)
  show ?case
  proof (cases "prefix ''#'' (html_UnescapeString l m)")
    case True
    then show ?thesis using Cons.IH[of c] by simp
  next
    case False
    show ?thesis
    proof (cases "url_Parse l (html_UnescapeString l m)")
      case None
      then show ?thesis using False Cons.IH[of c] by simp
    next
      case (Some u)
      have "admits l c (enqueue l c u (Some page))" by (rule admits_enqueue)
      moreover have "admits l (enqueue l c u (Some page))
          (process_links l (enqueue l c u (Some page)) page ms)" by (rule Cons.IH)
      ultimately show ?thesis using False Some by (simp add: admits_trans[of l c])
    qed
  qed
qed

lemma admits_allow: "admits l c (allow c d)"
  unfolding admits_def by (rule exI[of _ "[]"], rule exI[of _ "[]"]) (simp add: allow_def map_idI)

lemma admits_Load_domains: "admits l c (fst (Load_domains l c ds))"
proof (induction ds arbitrary: c)
  case Nil
  show ?case by (simp add: admits_refl)
next
  case (Cons d ds)
  let ?c1 = "allow c (normalize_host c d)"
  show ?case
  proof (cases "url_Parse l (''http://'' @ normalize_host c d @ ''/'')")
    case None
    then show ?thesis by (simp add: Let_def admits_allow)
  next
    case (Some u)
    have "admits l c ?c1" by (rule admits_allow)
    moreover have "admits l ?c1 (enqueue l ?c1 u None)" by (rule admits_enqueue)
    moreover have "admits l (enqueue l ?c1 u None) (fst (Load_domains l (enqueue l ?c1 u None) ds))"
      by (rule Cons.IH)
    ultimately have "admits l c (fst (Load_domains l (enqueue l ?c1 u None) ds))"
      by (blast intro: admits_trans)
    then show ?thesis using Some by (simp add: Let_def)
  qed
qed

lemma admits_www: "admits l c (c\<lparr>www := b\<rparr>)"
  unfolding admits_def by (rule exI[of _ "[]"], rule exI[of _ "[]"]) (simp add: map_idI)

lemma admits_Load: "admits l c (fst (Load l c input))"
proof (cases input)
  case (Inl e)
  then show ?thesis by (simp add: Load_def admits_refl)
next
  case (Inr config)
  have "admits l c (c\<lparr>www := Www config\<rparr>)" by (rule admits_www)
  moreover have "admits l (c\<lparr>www := Www config\<rparr>)
      (fst (Load_domains l (c\<lparr>www := Www config\<rparr>) (Domains config)))"
    by (rule admits_Load_domains)
  ultimately show ?thesis using Inr by (simp add: Load_def) (blast intro: admits_trans)
qed


lemma admits_queue: "admits l c c' \<Longrightarrow> queue c' = queue c @ new_tasks c c'"
  unfolding admits_def new_tasks_def by auto







lemma page_report_Ignored:
  assumes "is_Ignored (page_report l page)"
  shows "event_status (page_report l page) = 0"
proof (cases "http_Get l (url_String l page)")
  case (Inl err)
  then show ?thesis using assms by (simp add: page_report_def)
next
  case (Inr resp)
  show ?thesis
  proof (cases "StatusCode resp \<noteq> 200")
    case True
    then show ?thesis using assms Inr by (simp add: page_report_def)
  next
    case False
    then show ?thesis using assms Inr
      by (cases "prefix ''text/html'' (ContentType resp)") (simp_all add: page_report_def)
  qed
qed

lemma process_url_shape:
  "\<exists>c'. admits l c c' \<and>
     fst (process_url l c page) =
       c'\<lparr>reporters := map (\<lambda>r. r @ [page_report l page]) (reporters c')\<rparr>"
proof (cases "http_Get l (url_String l page)")
  case (Inl err)
  then have "fst (process_url l c page) =
      c\<lparr>reporters := map (\<lambda>r. r @ [page_report l page]) (reporters c)\<rparr>"
    by (simp add: process_url_def report_error_def page_report_def)
  then show ?thesis using admits_refl[of l c] by blast
next
  case (Inr resp)
  show ?thesis
  proof (cases "StatusCode resp = 200 \<and> prefix ''text/html'' (ContentType resp)")
    case False
    then have "fst (process_url l c page) =
        c\<lparr>reporters := map (\<lambda>r. r @ [page_report l page]) (reporters c)\<rparr>"
      using Inr
      by (auto simp: process_url_def report_error_def report_ignored_def page_report_def Let_def)
    then show ?thesis using admits_refl[of l c] by blast
  next
    case True
    let ?c' = "process_links l c page (pattern_FindAll l (Body resp))"
    have "fst (process_url l c page) =
        ?c'\<lparr>reporters := map (\<lambda>r. r @ [page_report l page]) (reporters ?c')\<rparr>"
      using Inr True by (simp add: process_url_def report_success_def page_report_def Let_def)
    then show ?thesis using admits_process_links[of l c page "pattern_FindAll l (Body resp)"]
      by blast
  qed
qed






lemma new_tasks_append: "queue c' = queue c @ new \<Longrightarrow> new_tasks c c' = new"
  by (simp add: new_tasks_def)



text \<open>What the reporters receive, and what the known-set keeps.\<close>

lemma admits_reports:
  assumes "admits l c c'"
  shows "\<exists>evs. reporters c' = map (\<lambda>r. r @ evs) (reporters c) \<and>
           (\<forall>e \<in> set evs. is_Ignored e \<and> event_status e = 0)"
  using assms unfolding admits_def by blast

lemma admits_new_events:
  assumes adm: "admits l c c'" and i: "i < length (reporters c)"
  shows "\<forall>e \<in> set (new_events c c' i). is_Ignored e \<and> event_status e = 0"
proof -
  obtain evs where e: "reporters c' = map (\<lambda>r. r @ evs) (reporters c)"
    "\<forall>e \<in> set evs. is_Ignored e \<and> event_status e = 0"
    using admits_reports[OF adm] by blast
  have "new_events c c' i = evs" using e(1) i by (simp add: new_events_def)
  then show ?thesis using e(2) by simp
qed

lemma process_url_new_events:
  assumes i: "i < length (reporters c)"
  shows "\<forall>e \<in> set (new_events c (fst (process_url l c page)) i). is_Ignored e \<longrightarrow> event_status e = 0"
proof -
  obtain c1 where s: "admits l c c1"
    "fst (process_url l c page) = c1\<lparr>reporters := map (\<lambda>r. r @ [page_report l page]) (reporters c1)\<rparr>"
    using process_url_shape[of l c page] by blast
  obtain evs where e: "reporters c1 = map (\<lambda>r. r @ evs) (reporters c)"
    "\<forall>e \<in> set evs. is_Ignored e \<and> event_status e = 0"
    using admits_reports[OF s(1)] by blast
  have "new_events c (fst (process_url l c page)) i = evs @ [page_report l page]"
    using s(2) e(1) i by (simp add: new_events_def)
  then show ?thesis using e(2) page_report_Ignored[of l page] by auto
qed

lemma worker_round_reporters:
  assumes "worker_round l c t = Some c'"
  shows "reporters c' = reporters (fst (process_url l (Dequeue c t) (url t)))"
  using assms by (auto simp: worker_round_def Done_def split: if_splits)

lemma before_run_ignored_zero:
  assumes "before_run l c h"
  shows "\<forall>r \<in> set (reporters c). \<forall>e \<in> set r. is_Ignored e \<longrightarrow> event_status e = 0"
  using assms
proof (induction rule: before_run.induct)
  case (start dir)
  show ?case by (simp add: New_def)
next
  case (register c h)
  then show ?case by (simp add: RegisterReporter_def)
next
  case (load c h input c' err)
  have "admits l c c'" using admits_Load[of l c input] load.hyps(2) by simp
  then obtain evs where "reporters c' = map (\<lambda>r. r @ evs) (reporters c)"
    "\<forall>e \<in> set evs. is_Ignored e \<and> event_status e = 0"
    using admits_reports by blast
  then show ?case using load.IH by auto
qed

lemma goroutine_step_ignored_zero:
  assumes "goroutine_step l (c, w) (c', w')"
    and "\<forall>r \<in> set (reporters c). \<forall>e \<in> set r. is_Ignored e \<longrightarrow> event_status e = 0"
  shows "\<forall>r \<in> set (reporters c'). \<forall>e \<in> set r. is_Ignored e \<longrightarrow> event_status e = 0"
  using assms
  by cases
     (auto simp: report_defs Dequeue_def Done_def enqueue_commit_def Let_def split: if_splits)

lemma run_ignored_zero:
  assumes "run l c ws h"
  shows "\<forall>r \<in> set (reporters c). \<forall>e \<in> set r. is_Ignored e \<longrightarrow> event_status e = 0"
  using assms
proof (induction rule: run.induct)
  case (launch c h pool_size)
  then show ?case by (rule before_run_ignored_zero)
next
  case (step c ws h i c' w')
  show ?case using step.hyps(3) step.IH by (rule goroutine_step_ignored_zero)
qed

lemma crawl_ignored_zero:
  assumes "crawl l c h"
  shows "\<forall>r \<in> set (reporters c). \<forall>e \<in> set r. is_Ignored e \<longrightarrow> event_status e = 0"
  using assms before_run_ignored_zero run_ignored_zero unfolding crawl_def by blast





text \<open>The allow-list: only \<^verbatim>\<open>allow\<close> writes it, and it writes \<open>True\<close>.\<close>

lemma domains_enqueue: "domains (enqueue l c link base) = domains c"
  by (simp add: enqueue_def Let_def report_ignored_def)

lemma domains_process_links: "domains (process_links l c page ms) = domains c"
  by (induction ms arbitrary: c) (simp_all add: Let_def domains_enqueue split: option.split)

lemma domains_process_url: "domains (fst (process_url l c page)) = domains c"
  by (simp add: process_url_def Let_def report_defs domains_process_links split: sum.split)

lemma domains_worker_round:
  assumes "worker_round l c t = Some c'"
  shows "domains c' = domains c"
proof -
  have "domains c' = domains (fst (process_url l (Dequeue c t) (url t)))"
    using assms by (auto simp: worker_round_def Done_def split: if_splits)
  then show ?thesis by (simp add: domains_process_url Dequeue_def)
qed

lemma domains_Load_domains:
  assumes "domains c k \<noteq> Some False"
  shows "domains (fst (Load_domains l c ds)) k \<noteq> Some False"
  using assms
proof (induction ds arbitrary: c)
  case Nil
  then show ?case by simp
next
  case (Cons d ds)
  let ?c1 = "allow c (normalize_host c d)"
  have c1: "domains ?c1 k \<noteq> Some False" using Cons.prems by (simp add: allow_def)
  show ?case
  proof (cases "url_Parse l (''http://'' @ normalize_host c d @ ''/'')")
    case None
    then show ?thesis using c1 by (simp add: Let_def)
  next
    case (Some u)
    have "domains (enqueue l ?c1 u None) k \<noteq> Some False" using c1 by (simp add: domains_enqueue)
    then have "domains (fst (Load_domains l (enqueue l ?c1 u None) ds)) k \<noteq> Some False"
      by (rule Cons.IH)
    then show ?thesis using Some by (simp add: Let_def)
  qed
qed

lemma before_run_domains:
  assumes "before_run l c h"
  shows "domains c k \<noteq> Some False"
  using assms
proof (induction rule: before_run.induct)
  case (start dir)
  show ?case by (simp add: New_def)
next
  case (register c h)
  then show ?case by (simp add: RegisterReporter_def)
next
  case (load c h input c' err)
  show ?case
  proof (cases input)
    case (Inl e)
    then show ?thesis using load by (simp add: Load_def)
  next
    case (Inr config)
    have "domains (c\<lparr>www := Www config\<rparr>) k \<noteq> Some False" using load.IH by simp
    then have "domains (fst (Load_domains l (c\<lparr>www := Www config\<rparr>) (Domains config))) k \<noteq> Some False"
      by (rule domains_Load_domains)
    then show ?thesis using Inr load.hyps(2) by (simp add: Load_def)
  qed
qed

lemma goroutine_step_domains:
  assumes "goroutine_step l (c, w) (c', w')"
  shows "domains c' = domains c"
  using assms
  by cases
     (auto simp: report_defs Dequeue_def Done_def enqueue_commit_def Let_def split: if_splits)

lemma run_domains:
  assumes "run l c ws h"
  shows "domains c k \<noteq> Some False"
  using assms
proof (induction rule: run.induct)
  case (launch c h pool_size)
  then show ?case by (rule before_run_domains)
next
  case (step c ws h i c' w')
  then show ?case using goroutine_step_domains by simp
qed

lemma crawl_domains:
  assumes "crawl l c h"
  shows "domains c k \<noteq> Some False"
  using assms before_run_domains run_domains unfolding crawl_def by blast

text \<open>A whole round of the worker loop is a sequence of steps of one goroutine.\<close>

lemma enqueue_split:
  "enqueue l c link base =
     (if known c (url_String l (enqueue_link l c link base)) \<noteq> None then c
      else enqueue_commit l c (enqueue_link l c link base))"
  by (simp add: enqueue_def enqueue_commit_def Let_def)

lemma new_tasks_same_queue: "queue c' = queue c \<Longrightarrow> new_tasks c c' = []"
  by (simp add: new_tasks_def)

lemma new_tasks_Dequeue: "new_tasks c (Dequeue c t) = []"
  by (simp add: new_tasks_def Dequeue_def length_remove1)

lemma new_tasks_admits_trans:
  assumes "admits l c c1" and "admits l c1 c2"
  shows "new_tasks c c1 @ new_tasks c1 c2 = new_tasks c c2"
proof -
  have "queue c1 = queue c @ new_tasks c c1" using assms(1) by (rule admits_queue)
  moreover have "queue c2 = queue c1 @ new_tasks c1 c2" using assms(2) by (rule admits_queue)
  ultimately have "queue c2 = queue c @ (new_tasks c c1 @ new_tasks c1 c2)" by simp
  then show ?thesis by (simp only: new_tasks_append)
qed

lemma run_links:
  assumes "run l c ws h" and "i < length ws" and "ws ! i = Links page s ms"
  shows "run l (process_links l c page ms) (ws[i := Links page s []])
           (h @ new_tasks c (process_links l c page ms))"
  using assms
proof (induction ms arbitrary: c ws h)
  case Nil
  then have "ws[i := Links page s []] = ws" by (simp add: list_update_same_conv)
  then show ?case using Nil.prems(1) by (simp add: new_tasks_same_queue)
next
  case (Cons m ms)
  let ?ws = "ws[i := Links page s ms]"
  have at: "?ws ! i = Links page s ms" "i < length ?ws" using Cons.prems(2) by simp_all
  have over: "?ws[i := Links page s []] = ws[i := Links page s []]" by simp
  have same: "run l (process_links l c page ms) (ws[i := Links page s []])
      (h @ new_tasks c (process_links l c page ms))"
    if "goroutine_step l (c, Links page s (m # ms)) (c, Links page s ms)"
  proof -
    have "run l c ?ws (h @ new_tasks c c)"
      using run.step[OF Cons.prems(1) Cons.prems(2)] that Cons.prems(3) by simp
    then have "run l c ?ws h" by (simp add: new_tasks_same_queue)
    then show ?thesis using Cons.IH[of c ?ws h] at over by simp
  qed
  show ?case
  proof (cases "prefix ''#'' (html_UnescapeString l m)")
    case True
    then show ?thesis using same[OF goroutine_step.skip_fragment] by simp
  next
    case no: False
    show ?thesis
    proof (cases "url_Parse l (html_UnescapeString l m)")
      case None
      then show ?thesis using no same[OF goroutine_step.skip_invalid] by simp
    next
      case (Some u)
      let ?u = "enqueue_link l c u (Some page)"
      show ?thesis
      proof (cases "known c (url_String l ?u) = None")
        case False
        then have "enqueue l c u (Some page) = c" by (simp add: enqueue_known)
        then show ?thesis using no Some False same[OF goroutine_step.test_known] by simp
      next
        case True
        let ?c1 = "enqueue l c u (Some page)"
        let ?c2 = "process_links l ?c1 page ms"
        have c1: "enqueue_commit l c ?u = ?c1" using True by (simp add: enqueue_split)
        have "goroutine_step l (c, ws ! i) (c, Passed page s ms ?u)"
          using no Some True Cons.prems(3) by (simp add: goroutine_step.test_new)
        then have "run l c (ws[i := Passed page s ms ?u]) (h @ new_tasks c c)"
          by (rule run.step[OF Cons.prems(1) Cons.prems(2)])
        then have r1: "run l c (ws[i := Passed page s ms ?u]) h"
          by (simp add: new_tasks_same_queue)
        have "goroutine_step l (c, ws[i := Passed page s ms ?u] ! i) (?c1, Links page s ms)"
          using goroutine_step.commit[of l c page s ms ?u] c1 Cons.prems(2) by simp
        then have "run l ?c1 (ws[i := Passed page s ms ?u, i := Links page s ms])
            (h @ new_tasks c ?c1)"
          using run.step[OF r1, of i ?c1 "Links page s ms"] Cons.prems(2) by simp
        then have r2: "run l ?c1 ?ws (h @ new_tasks c ?c1)" by simp
        have "run l ?c2 (?ws[i := Links page s []]) ((h @ new_tasks c ?c1) @ new_tasks ?c1 ?c2)"
          using Cons.IH[OF r2] at by simp
        moreover have "new_tasks c ?c1 @ new_tasks ?c1 ?c2 = new_tasks c ?c2"
          using admits_enqueue admits_process_links by (rule new_tasks_admits_trans)
        ultimately have "run l ?c2 (ws[i := Links page s []]) (h @ new_tasks c ?c2)"
          using over by simp
        then show ?thesis using no Some by simp
      qed
    qed
  qed
qed

lemma run_process:
  assumes r: "run l c ws h" and i: "i < length ws" and at: "ws ! i = Got t"
  shows "run l (fst (process_url l c (url t))) (ws[i := Reported])
           (h @ new_tasks c (fst (process_url l c (url t))))"
proof -
  let ?p = "fst (process_url l c (url t))"
  have direct: "run l ?p (ws[i := Reported]) (h @ new_tasks c ?p)"
    if "goroutine_step l (c, Got t) (?p, Reported)"
    using run.step[OF r i] that at by simp
  show ?thesis
  proof (cases "http_Get l (url_String l (url t))")
    case (Inl err)
    then have "?p = report_error c (url t) 0 (Failure err)" by (simp add: process_url_def)
    then show ?thesis using direct goroutine_step.fetch_failed[OF Inl, of c] by simp
  next
    case (Inr resp)
    show ?thesis
    proof (cases "StatusCode resp = 200")
      case False
      then have "?p = report_error c (url t) (to_uint (StatusCode resp)) No_reason"
        using Inr by (simp add: process_url_def Let_def)
      then show ?thesis using direct goroutine_step.fetch_status[OF Inr False, of c] by simp
    next
      case ok: True
      show ?thesis
      proof (cases "prefix ''text/html'' (ContentType resp)")
        case False
        then have "?p = report_ignored c (url t) 0 (Text (''content-type: '' @ ContentType resp))"
          using Inr ok by (simp add: process_url_def Let_def)
        then show ?thesis using direct goroutine_step.fetch_type[OF Inr ok False, of c] by simp
      next
        case True
        let ?s = "to_uint (StatusCode resp)"
        let ?ms = "pattern_FindAll l (Body resp)"
        let ?cl = "process_links l c (url t) ?ms"
        have p: "?p = report_success ?cl (url t) ?s"
          using Inr ok True by (simp add: process_url_def Let_def)
        have "goroutine_step l (c, ws ! i) (c, Links (url t) ?s ?ms)"
          using goroutine_step.fetch_html[OF Inr ok True, of c] at by simp
        then have "run l c (ws[i := Links (url t) ?s ?ms]) (h @ new_tasks c c)"
          by (rule run.step[OF r i])
        then have r1: "run l c (ws[i := Links (url t) ?s ?ms]) h"
          by (simp add: new_tasks_same_queue)
        have r2: "run l ?cl (ws[i := Links (url t) ?s []]) (h @ new_tasks c ?cl)"
          using run_links[OF r1, of i "url t" ?s ?ms] i by simp
        have "goroutine_step l (?cl, ws[i := Links (url t) ?s []] ! i) (?p, Reported)"
          using goroutine_step.success[of l ?cl "url t" ?s] p i by simp
        then have "run l ?p (ws[i := Links (url t) ?s [], i := Reported])
            ((h @ new_tasks c ?cl) @ new_tasks ?cl ?p)"
          using run.step[OF r2, of i ?p Reported] i by simp
        moreover have "new_tasks ?cl ?p = []"
          by (rule new_tasks_same_queue) (simp add: p report_success_def)
        moreover have "new_tasks c ?p = new_tasks c ?cl"
          by (simp add: new_tasks_def p report_success_def)
        ultimately show ?thesis by simp
      qed
    qed
  qed
qed

lemma run_round:
  assumes r: "run l c ws h" and i: "i < length ws" and idle: "ws ! i = Idle"
    and t: "t \<in> set (queue c)" and w: "worker_round l c t = Some c'"
  shows "run l c' ws (h @ new_tasks (Dequeue c t) c')"
proof -
  let ?d = "Dequeue c t"
  let ?p = "fst (process_url l ?d (url t))"
  have "goroutine_step l (c, ws ! i) (?d, Got t)"
    using goroutine_step.take[OF t, of l] idle by simp
  then have "run l ?d (ws[i := Got t]) (h @ new_tasks c ?d)" by (rule run.step[OF r i])
  then have r1: "run l ?d (ws[i := Got t]) h" by (simp add: new_tasks_Dequeue)
  have r2: "run l ?p (ws[i := Reported]) (h @ new_tasks ?d ?p)"
    using run_process[OF r1, of i t] i by simp
  have d: "Done ?p = Some c'" using w by (simp add: worker_round_def)
  then have "goroutine_step l (?p, ws[i := Reported] ! i) (c', Idle)"
    using goroutine_step.finish[of ?p c' l] i by simp
  then have "run l c' (ws[i := Reported, i := Idle]) ((h @ new_tasks ?d ?p) @ new_tasks ?p c')"
    using run.step[OF r2, of i c' Idle] i by simp
  moreover have "ws[i := Reported, i := Idle] = ws" using idle i by (simp add: list_update_same_conv)
  moreover have q: "queue c' = queue ?p" using d by (auto simp: Done_def split: if_splits)
  then have "new_tasks ?p c' = []" by (rule new_tasks_same_queue)
  moreover have "new_tasks ?d c' = new_tasks ?d ?p" using q by (simp add: new_tasks_def)
  ultimately show ?thesis by simp
qed

lemma serial_crawl_run:
  assumes "serial_crawl l c h"
  shows "run l c (replicate (Suc n) Idle) h"
  using assms
proof (induction rule: serial_crawl.induct)
  case (from_before_run c h)
  then have "run l c (replicate (nat (int n + 1)) Idle) h" by (rule run.launch)
  moreover have "nat (int n + 1) = Suc n" by simp
  ultimately show ?case by simp
next
  case (work c h t c')
  show ?case using run_round[OF work.IH _ _ work.hyps(2) work.hyps(3), of 0] by simp
qed

lemma serial_crawl_crawl: "serial_crawl l c h \<Longrightarrow> crawl l c h"
  using serial_crawl_run[of l c h 0] unfolding crawl_def by blast


section \<open>The example run\<close>

lemmas demo_defs = demo_lib_def demo_String_def demo_Parse_def demo_ResolveReference_def
  demo_Get_def demo_FindAll_def demo_page_def demo_page2_def cut_def to_lower_def
  resolvePath_def dot_step_def demo_url_def Let_def

lemma demo_Load: "Load demo_lib demo_start (Inr demo_config) = (demo_seeded, None)"
  by (simp add: Load_def demo_config_def demo_start_def demo_seeded_def demo_seed_def
      RegisterReporter_def New_def normalize_host_def allow_def enqueue_def enqueue_link_def
      Let_def demo_defs)

lemma demo_round: "worker_round demo_lib demo_seeded demo_seed = Some demo_crawled"
  by (simp add: worker_round_def Done_def Dequeue_def process_url_def to_uint_def
      demo_seeded_def demo_seed_def demo_about_def demo_crawled_def report_defs
      normalize_host_def enqueue_def enqueue_link_def Let_def demo_defs)

lemma demo_before_run: "before_run demo_lib demo_seeded [demo_seed]"
proof -
  have "before_run demo_lib demo_start []"
    unfolding demo_start_def by (intro before_run.register before_run.start)
  then have "before_run demo_lib demo_seeded ([] @ new_tasks demo_start demo_seeded)"
    using demo_Load by (rule before_run.load)
  moreover have "new_tasks demo_start demo_seeded = [demo_seed]"
    by (simp add: new_tasks_def demo_start_def demo_seeded_def RegisterReporter_def New_def)
  ultimately show ?thesis by simp
qed


lemma demo_serial: "serial_crawl demo_lib demo_crawled [demo_seed, demo_about]"
proof -
  have "serial_crawl demo_lib demo_seeded [demo_seed]"
    using demo_before_run by (rule serial_crawl.from_before_run)
  moreover have "demo_seed \<in> set (queue demo_seeded)" by (simp add: demo_seeded_def)
  ultimately have "serial_crawl demo_lib demo_crawled
      ([demo_seed] @ new_tasks (Dequeue demo_seeded demo_seed) demo_crawled)"
    using demo_round by (rule serial_crawl.work)
  moreover have "new_tasks (Dequeue demo_seeded demo_seed) demo_crawled = [demo_about]"
    by (simp add: new_tasks_def Dequeue_def demo_seeded_def demo_crawled_def)
  ultimately show ?thesis by simp
qed

lemma demo_crawl_seeded: "crawl demo_lib demo_seeded [demo_seed]"
  using demo_before_run unfolding crawl_def by blast

lemma demo_crawl: "crawl demo_lib demo_crawled [demo_seed, demo_about]"
  using demo_serial by (rule serial_crawl_crawl)











section \<open>Deduplication\<close>




text \<open>
  Claim C2, as the code has it. A call whose key is new ends in exactly one of the two
  outcomes, a task with its tracker increment or one ignored report; a call whose key is
  already known returns at once and leaves the crawler unchanged, which is neither.
\<close>

theorem enqueue_outcome:
  "(known c (url_String l (enqueue_link l c link base)) = None \<longrightarrow>
      (outcome_enqueued l c link base \<or> outcome_ignored l c link base) \<and>
      \<not> (outcome_enqueued l c link base \<and> outcome_ignored l c link base)) \<and>
   (known c (url_String l (enqueue_link l c link base)) \<noteq> None \<longrightarrow>
      enqueue l c link base = c)"
proof (intro conjI impI)
  assume fresh: "known c (url_String l (enqueue_link l c link base)) = None"
  let ?u = "enqueue_link l c link base"
  show "outcome_enqueued l c link base \<or> outcome_ignored l c link base"
  proof (cases "Scheme ?u = ''http''")
    case False
    then show ?thesis using enqueue_wrong_scheme[OF fresh]
      by (simp add: outcome_ignored_def reject_reason_def report_ignored_def)
  next
    case True
    show ?thesis
    proof (cases "domains c (Host ?u) = Some True")
      case True
      then show ?thesis using enqueue_admitted[OF fresh \<open>Scheme ?u = ''http''\<close>]
        by (simp add: outcome_enqueued_def)
    next
      case False
      then show ?thesis using enqueue_external[OF fresh \<open>Scheme ?u = ''http''\<close>] \<open>Scheme ?u = ''http''\<close>
        by (simp add: outcome_ignored_def reject_reason_def report_ignored_def)
    qed
  qed
next
  show "\<not> (outcome_enqueued l c link base \<and> outcome_ignored l c link base)"
    by (auto simp: outcome_enqueued_def outcome_ignored_def Let_def)
next
  assume "known c (url_String l (enqueue_link l c link base)) \<noteq> None"
  then show "enqueue l c link base = c" by (rule enqueue_known)
qed

text \<open>
  On the example, after loading: \<^verbatim>\<open>/about\<close> is new and ends in one outcome; the seed
  is known and nothing changes.
\<close>

theorem enqueue_outcome_witness:
  "known demo_seeded (url_String demo_lib (enqueue_link demo_lib demo_seeded demo_rel (Some (url demo_seed)))) = None \<and>
   (outcome_enqueued demo_lib demo_seeded demo_rel (Some (url demo_seed)) \<or>
    outcome_ignored demo_lib demo_seeded demo_rel (Some (url demo_seed))) \<and>
   \<not> (outcome_enqueued demo_lib demo_seeded demo_rel (Some (url demo_seed)) \<and>
      outcome_ignored demo_lib demo_seeded demo_rel (Some (url demo_seed))) \<and>
   known demo_seeded (url_String demo_lib (enqueue_link demo_lib demo_seeded (url demo_seed) None)) \<noteq> None \<and>
   enqueue demo_lib demo_seeded (url demo_seed) None = demo_seeded"
proof -
  have fresh: "known demo_seeded (url_String demo_lib
      (enqueue_link demo_lib demo_seeded demo_rel (Some (url demo_seed)))) = None"
    by (simp add: enqueue_link_def normalize_host_def demo_seeded_def demo_seed_def
        demo_rel_def demo_defs)
  have "known demo_seeded (url_String demo_lib
      (enqueue_link demo_lib demo_seeded (url demo_seed) None)) = Some True"
    by (simp add: enqueue_link_def normalize_host_def demo_seeded_def demo_seed_def demo_defs)
  then have old: "known demo_seeded (url_String demo_lib
      (enqueue_link demo_lib demo_seeded (url demo_seed) None)) \<noteq> None"
    by blast
  show ?thesis
    using fresh old
      enqueue_outcome[of demo_seeded demo_lib demo_rel "Some (url demo_seed)"]
      enqueue_outcome[of demo_seeded demo_lib "url demo_seed" None]
    by blast
qed

text \<open>
  Claim C2 as stated fails for a call on a known key: admitting the seed a second time
  enqueues no task and reports nothing.
\<close>

theorem enqueue_neither_counterexample:
  "\<not> outcome_enqueued demo_lib demo_seeded (url demo_seed) None \<and>
   \<not> outcome_ignored demo_lib demo_seeded (url demo_seed) None"
  by (simp add: outcome_enqueued_def outcome_ignored_def enqueue_def enqueue_link_def
      normalize_host_def Let_def demo_seeded_def demo_seed_def demo_defs del: not_None_eq)

section \<open>Admission policy\<close>

text \<open>
  Claim C3. The policy (lines 101 to 113) is reached by the links whose key is new. Such a
  link becomes a task exactly when its scheme is the string \<^verbatim>\<open>http\<close> and
  \<^verbatim>\<open>c.domains[link.Host]\<close> is true for its canonical host; an \<^verbatim>\<open>http\<close> link with
  another host is reported ignored with reason \<^verbatim>\<open>external domain\<close>, and a link with
  another scheme is reported ignored with reason \<^verbatim>\<open>wrong scheme: \<close> followed by the
  scheme. In a run the allow-list holds nothing but \<open>True\<close>, so that the test is true
  exactly for the hosts that are present in it.
\<close>

theorem admission_policy:
  "(known c (url_String l (enqueue_link l c link base)) = None \<longrightarrow>
      (outcome_enqueued l c link base \<longleftrightarrow>
         Scheme (enqueue_link l c link base) = ''http'' \<and>
         domains c (Host (enqueue_link l c link base)) = Some True) \<and>
      (Scheme (enqueue_link l c link base) = ''http'' \<and>
       domains c (Host (enqueue_link l c link base)) \<noteq> Some True \<longrightarrow>
         queue (enqueue l c link base) = queue c \<and>
         reporters (enqueue l c link base) =
           map (\<lambda>r. r @ [Ignored (enqueue_link l c link base) 0 (Text ''external domain'')])
             (reporters c)) \<and>
      (Scheme (enqueue_link l c link base) \<noteq> ''http'' \<longrightarrow>
         queue (enqueue l c link base) = queue c \<and>
         reporters (enqueue l c link base) =
           map (\<lambda>r. r @ [Ignored (enqueue_link l c link base) 0
                            (Text (''wrong scheme: '' @ Scheme (enqueue_link l c link base)))])
             (reporters c))) \<and>
   (crawl l c h \<longrightarrow> (host \<in> dom (domains c) \<longleftrightarrow> domains c host = Some True))"
proof (intro conjI impI)
  let ?u = "enqueue_link l c link base"
  assume fresh: "known c (url_String l ?u) = None"
  have yes: "outcome_enqueued l c link base"
    if "Scheme ?u = ''http''" "domains c (Host ?u) = Some True"
    using enqueue_admitted[OF fresh that] by (simp add: outcome_enqueued_def)
  have no: "\<not> outcome_enqueued l c link base" if "queue (enqueue l c link base) = queue c"
    using that by (simp add: outcome_enqueued_def Let_def)
  show ext: "queue (enqueue l c link base) = queue c"
    "reporters (enqueue l c link base) =
        map (\<lambda>r. r @ [Ignored ?u 0 (Text ''external domain'')]) (reporters c)"
    if "Scheme ?u = ''http'' \<and> domains c (Host ?u) \<noteq> Some True"
    using enqueue_external[OF fresh] that by (simp_all add: report_ignored_def)
  show wrong: "queue (enqueue l c link base) = queue c"
    "reporters (enqueue l c link base) =
        map (\<lambda>r. r @ [Ignored ?u 0 (Text (''wrong scheme: '' @ Scheme ?u))]) (reporters c)"
    if "Scheme ?u \<noteq> ''http''"
    using enqueue_wrong_scheme[OF fresh that] by (simp_all add: report_ignored_def)
  show "outcome_enqueued l c link base \<longleftrightarrow>
      Scheme ?u = ''http'' \<and> domains c (Host ?u) = Some True"
    using yes no ext(1) wrong(1) by blast
next
  assume "crawl l c h"
  then have "domains c host \<noteq> Some False" by (rule crawl_domains)
  then show "host \<in> dom (domains c) \<longleftrightarrow> domains c host = Some True"
    by (cases "domains c host") auto
qed

text \<open>
  On the example, after loading: \<^verbatim>\<open>/about\<close> is enqueued, \<^verbatim>\<open>http://other.com/\<close> is an
  external domain, \<^verbatim>\<open>https://example.com/x\<close> has the wrong scheme, and the allow-list
  holds \<^verbatim>\<open>example.com\<close>.
\<close>

theorem admission_policy_witness:
  "known demo_seeded (url_String demo_lib (enqueue_link demo_lib demo_seeded demo_rel (Some (url demo_seed)))) = None \<and>
   Scheme (enqueue_link demo_lib demo_seeded demo_rel (Some (url demo_seed))) = ''http'' \<and>
   domains demo_seeded (Host (enqueue_link demo_lib demo_seeded demo_rel (Some (url demo_seed)))) = Some True \<and>
   outcome_enqueued demo_lib demo_seeded demo_rel (Some (url demo_seed)) \<and>
   known demo_seeded (url_String demo_lib (enqueue_link demo_lib demo_seeded (demo_url ''http'' ''other.com'' ''/'') (Some (url demo_seed)))) = None \<and>
   domains demo_seeded (Host (enqueue_link demo_lib demo_seeded (demo_url ''http'' ''other.com'' ''/'') (Some (url demo_seed)))) \<noteq> Some True \<and>
   reporters (enqueue demo_lib demo_seeded (demo_url ''http'' ''other.com'' ''/'') (Some (url demo_seed))) =
     [[Ignored (demo_url ''http'' ''other.com'' ''/'') 0 (Text ''external domain'')]] \<and>
   known demo_seeded (url_String demo_lib (enqueue_link demo_lib demo_seeded demo_https (Some (url demo_seed)))) = None \<and>
   reporters (enqueue demo_lib demo_seeded demo_https (Some (url demo_seed))) =
     [[Ignored demo_https 0 (Text ''wrong scheme: https'')]] \<and>
   crawl demo_lib demo_seeded [demo_seed] \<and>
   ''example.com'' \<in> dom (domains demo_seeded) \<and>
   domains demo_seeded ''example.com'' = Some True"
proof -
  have e1: "enqueue_link demo_lib demo_seeded demo_rel (Some (url demo_seed)) = url demo_about"
    by (simp add: enqueue_link_def normalize_host_def demo_seeded_def demo_seed_def
        demo_about_def demo_rel_def demo_defs)
  have e2: "enqueue_link demo_lib demo_seeded (demo_url ''http'' ''other.com'' ''/'') (Some (url demo_seed))
      = demo_url ''http'' ''other.com'' ''/''"
    by (simp add: enqueue_link_def normalize_host_def demo_seeded_def demo_seed_def demo_defs)
  have e3: "enqueue_link demo_lib demo_seeded demo_https (Some (url demo_seed)) = demo_https"
    by (simp add: enqueue_link_def normalize_host_def demo_seeded_def demo_seed_def
        demo_https_def demo_defs)
  have k1: "known demo_seeded (url_String demo_lib (url demo_about)) = None"
    by (simp add: demo_seeded_def demo_about_def demo_defs)
  have k2: "known demo_seeded (url_String demo_lib (demo_url ''http'' ''other.com'' ''/'')) = None"
    by (simp add: demo_seeded_def demo_defs)
  have k3: "known demo_seeded (url_String demo_lib demo_https) = None"
    by (simp add: demo_seeded_def demo_https_def demo_defs)
  have s1: "Scheme (url demo_about) = ''http''"
    "domains demo_seeded (Host (url demo_about)) = Some True"
    by (simp_all add: demo_about_def demo_seeded_def demo_url_def)
  have s2: "Scheme (demo_url ''http'' ''other.com'' ''/'') = ''http''"
    "domains demo_seeded (Host (demo_url ''http'' ''other.com'' ''/'')) \<noteq> Some True"
    by (simp_all add: demo_seeded_def demo_url_def)
  have s3: "Scheme demo_https \<noteq> ''http''"
    "''wrong scheme: '' @ Scheme demo_https = ''wrong scheme: https''"
    by (simp_all add: demo_https_def demo_url_def)
  have r: "reporters demo_seeded = [[]]" by (simp add: demo_seeded_def)
  have d: "''example.com'' \<in> dom (domains demo_seeded)" by (simp add: demo_seeded_def)
  show ?thesis
    using admission_policy[of demo_seeded demo_lib demo_rel "Some (url demo_seed)"
        "[demo_seed]" "''example.com''"]
      admission_policy[of demo_seeded demo_lib "demo_url ''http'' ''other.com'' ''/''"
        "Some (url demo_seed)" "[demo_seed]" "''example.com''"]
      admission_policy[of demo_seeded demo_lib demo_https "Some (url demo_seed)"
        "[demo_seed]" "''example.com''"]
      demo_crawl_seeded d
    unfolding e1 e2 e3 using k1 k2 k3 s1 s2 s3 r by simp
qed

section \<open>Fetching a page\<close>

text \<open>
  Claim C4, as the code has it. For a response whose status is not 200, \<^verbatim>\<open>process_url\<close>
  reports an error with that status (for a status in the range of \<^verbatim>\<open>uint\<close> the very
  number) and does nothing else to the crawler: no link is extracted or admitted. The body
  has been read by then, since \<^verbatim>\<open>ioutil.ReadAll\<close> runs before the status is looked at;
  what it delivered is not used.
\<close>

theorem process_url_non_200:
  assumes got: "http_Get l (url_String l page) = Inr resp"
    and status: "StatusCode resp \<noteq> 200"
  shows "process_url l c page =
           (report_error c page (to_uint (StatusCode resp)) No_reason,
            [Http_Get (url_String l page), ReadAll_Body, Close_Body]) \<and>
         queue (fst (process_url l c page)) = queue c \<and>
         known (fst (process_url l c page)) = known c \<and>
         waiter (fst (process_url l c page)) = waiter c \<and>
         reporters (fst (process_url l c page)) =
           map (\<lambda>r. r @ [Error page (to_uint (StatusCode resp)) No_reason]) (reporters c) \<and>
         (0 \<le> StatusCode resp \<and> StatusCode resp < 2 ^ 64 \<longrightarrow>
            int (to_uint (StatusCode resp)) = StatusCode resp)"
  using got status by (simp add: process_url_def Let_def report_error_def to_uint_def)

text \<open>On the example: \<^verbatim>\<open>/about\<close> answers 404.\<close>

theorem process_url_non_200_witness:
  "http_Get demo_lib (url_String demo_lib (url demo_about)) =
     Inr \<lparr>StatusCode = 404, ContentType = ''text/html'', Body = ''not found''\<rparr> \<and>
   process_url demo_lib demo_crawled (url demo_about) =
     (report_error demo_crawled (url demo_about) 404 No_reason,
      [Http_Get ''http://example.com/about'', ReadAll_Body, Close_Body]) \<and>
   queue (fst (process_url demo_lib demo_crawled (url demo_about))) = queue demo_crawled"
proof -
  have got: "http_Get demo_lib (url_String demo_lib (url demo_about)) =
     Inr \<lparr>StatusCode = 404, ContentType = ''text/html'', Body = ''not found''\<rparr>"
    by (simp add: demo_about_def demo_defs)
  have s: "url_String demo_lib (url demo_about) = ''http://example.com/about''"
    by (simp add: demo_about_def demo_defs)
  show ?thesis
    using got process_url_non_200[OF got, of demo_crawled]
    by (simp add: s to_uint_def report_error_def)
qed

text \<open>
  Claim C4 as stated fails in its last part: for the 404 answer of \<^verbatim>\<open>/about\<close> the body
  is read.
\<close>

theorem non_200_body_read_counterexample:
  "http_Get demo_lib (url_String demo_lib (url demo_about)) =
     Inr \<lparr>StatusCode = 404, ContentType = ''text/html'', Body = ''not found''\<rparr> \<and>
   ReadAll_Body \<in> set (snd (process_url demo_lib demo_crawled (url demo_about)))"
  by (simp add: process_url_def Let_def demo_about_def demo_defs)

section \<open>Host canonicalization\<close>

lemma prefix_www_www:
  "prefix ''www.www.'' h \<longleftrightarrow> prefix ''www.'' h \<and> prefix ''www.'' (drop 4 h)"
proof
  assume "prefix ''www.www.'' h"
  then obtain r where "h = ''www.www.'' @ r" by (auto simp: prefix_def)
  then show "prefix ''www.'' h \<and> prefix ''www.'' (drop 4 h)" by simp
next
  assume a: "prefix ''www.'' h \<and> prefix ''www.'' (drop 4 h)"
  then obtain r where r: "h = ''www.'' @ r" by (auto simp: prefix_def)
  then have "drop 4 h = r" by simp
  with a obtain r' where "r = ''www.'' @ r'" by (auto simp: prefix_def)
  with r show "prefix ''www.www.'' h" by simp
qed

text \<open>
  Claim C5, as the code has it. \<^verbatim>\<open>normalize_host\<close> strips at most one \<^verbatim>\<open>www.\<close>, so
  applying it twice gives the same host as applying it once exactly when \<^verbatim>\<open>www\<close> is set
  (the prefix is added and then kept) or the host does not begin with \<^verbatim>\<open>www.www.\<close>.
\<close>

theorem normalize_host_idempotent_iff:
  "normalize_host c (normalize_host c h) = normalize_host c h \<longleftrightarrow>
     www c \<or> \<not> prefix ''www.www.'' h"
proof (cases "www c")
  case True
  then show ?thesis by (simp add: normalize_host_def)
next
  case no: False
  show ?thesis
  proof (cases "prefix ''www.'' h")
    case False
    then show ?thesis using no by (simp add: normalize_host_def prefix_www_www)
  next
    case True
    then obtain r where r: "h = ''www.'' @ r" by (auto simp: prefix_def)
    have "r \<noteq> drop 4 r" if "prefix ''www.'' r"
    proof
      assume "r = drop 4 r"
      then have "length r = length (drop 4 r)" by simp
      moreover have "4 \<le> length r" using that by (auto simp: prefix_def)
      ultimately show False by simp
    qed
    then show ?thesis using no True r by (auto simp: normalize_host_def prefix_www_www)
  qed
qed

text \<open>The theorem at the host \<^verbatim>\<open>www.example.com\<close>, with \<^verbatim>\<open>www\<close> unset.\<close>

theorem normalize_host_idempotent_witness:
  "\<not> prefix ''www.www.'' ''www.example.com'' \<and>
   normalize_host (New ''report'') (normalize_host (New ''report'') ''www.example.com'') =
   normalize_host (New ''report'') ''www.example.com''"
  using normalize_host_idempotent_iff[of "New ''report''" "''www.example.com''"]
  by simp

text \<open>
  Claim C5 as stated fails with \<^verbatim>\<open>www\<close> unset at \<^verbatim>\<open>www.www.example.com\<close>: once gives
  \<^verbatim>\<open>www.example.com\<close>, twice gives \<^verbatim>\<open>example.com\<close>.
\<close>

theorem normalize_host_twice_counterexample:
  "normalize_host (New ''report'') (normalize_host (New ''report'') ''www.www.example.com'')
     \<noteq> normalize_host (New ''report'') ''www.www.example.com''"
  by (simp add: normalize_host_def New_def)

section \<open>Seeding\<close>

text \<open>
  One turn of the loop of \<^verbatim>\<open>Load\<close>, where the synthesized URL parses to the scheme
  \<^verbatim>\<open>http\<close> and the allowed host, the second canonicalization, the one in \<^verbatim>\<open>enqueue\<close>,
  leaves that host as it is, and the key is new: the seed becomes a task.
\<close>

lemma Load_domains_seed:
  assumes parse: "url_Parse l (''http://'' @ normalize_host c d @ ''/'') = Some u"
    and scheme: "Scheme u = ''http''"
    and host: "Host u = normalize_host c d"
    and fixed: "normalize_host c (normalize_host c d) = normalize_host c d"
    and fresh: "known c (url_String l (enqueue_link l c u None)) = None"
  shows "Load_domains l c (d # ds) =
           Load_domains l
             (c\<lparr>domains := (domains c)(normalize_host c d \<mapsto> True),
                known := (known c)(url_String l (enqueue_link l c u None) \<mapsto> True),
                waiter := waiter c + 1,
                queue := queue c @ [\<lparr>url = enqueue_link l c u None\<rparr>]\<rparr>) ds \<and>
         Scheme (enqueue_link l c u None) = ''http'' \<and>
         Host (enqueue_link l c u None) = normalize_host c d"
proof -
  let ?d = "normalize_host c d"
  let ?c1 = "allow c ?d"
  have w: "www ?c1 = www c" by (simp add: allow_def)
  have n: "normalize_host ?c1 h = normalize_host c h" for h
    by (simp add: normalize_host_def allow_def)
  have el: "enqueue_link l ?c1 u None = enqueue_link l c u None"
    using w by (rule enqueue_link_www)
  have s: "Scheme (enqueue_link l c u None) = ''http''"
    using scheme by (simp add: enqueue_link_def Let_def)
  have h: "Host (enqueue_link l c u None) = ?d"
    using host fixed by (simp add: enqueue_link_def Let_def)
  have "enqueue l ?c1 u None =
      ?c1\<lparr>known := (known ?c1)(url_String l (enqueue_link l ?c1 u None) \<mapsto> True),
          waiter := waiter ?c1 + 1,
          queue := queue ?c1 @ [\<lparr>url = enqueue_link l ?c1 u None\<rparr>]\<rparr>"
  proof (rule enqueue_admitted)
    show "known ?c1 (url_String l (enqueue_link l ?c1 u None)) = None"
      using fresh el by (simp add: allow_def)
    show "Scheme (enqueue_link l ?c1 u None) = ''http''" using s el by simp
    show "domains ?c1 (Host (enqueue_link l ?c1 u None)) = Some True"
      using h el by (simp add: allow_def)
  qed
  then have "enqueue l ?c1 u None =
      c\<lparr>domains := (domains c)(?d \<mapsto> True),
        known := (known c)(url_String l (enqueue_link l c u None) \<mapsto> True),
        waiter := waiter c + 1,
        queue := queue c @ [\<lparr>url = enqueue_link l c u None\<rparr>]\<rparr>"
    using el by (simp add: allow_def)
  then show ?thesis using parse s h by (simp add: Let_def)
qed

text \<open>
  Claim C6 fails in the code. \<^verbatim>\<open>Load\<close> canonicalizes the configured domain and allows the
  result, and \<^verbatim>\<open>enqueue\<close> canonicalizes the host of the seed a second time; the two
  agree only where \<^verbatim>\<open>normalize_host\<close> applied twice gives what it gives applied once.
  For the configuration \<^verbatim>\<open>{"www": false, "domains": ["www.www.example.com"]}\<close> the domain
  \<^verbatim>\<open>www.example.com\<close> is allowed, the seed \<^verbatim>\<open>http://www.example.com/\<close> gets the host
  \<^verbatim>\<open>example.com\<close>, which is not allowed, and the seed is reported ignored as an external
  domain: \<^verbatim>\<open>Load\<close> returns no error, the queue is empty and the tracker is at zero.
\<close>

theorem seed_reported_ignored:
  "demo_config_www = \<lparr>Www = False, Domains = [''www.www.example.com'']\<rparr> \<and>
   normalize_host demo_start ''www.www.example.com'' = ''www.example.com'' \<and>
   normalize_host demo_start ''www.example.com'' = ''example.com'' \<and>
   Load demo_lib demo_start (Inr demo_config_www) =
     (\<lparr>www = False, domains = [''www.example.com'' \<mapsto> True], queue = [], waiter = 0,
       known = [''http://example.com/'' \<mapsto> True], report_dir = ''/report'',
       reporters = [[Ignored (url demo_seed) 0 (Text ''external domain'')]]\<rparr>, None)"
  by (simp add: Load_def demo_config_www_def demo_start_def demo_seed_def
      RegisterReporter_def New_def normalize_host_def allow_def enqueue_def enqueue_link_def
      report_ignored_def Let_def demo_defs)

section \<open>Fragments and empty paths\<close>

text \<open>
  Claim C7. The link whose string is the dedup key, and which is enqueued or reported, is
  the link given, or with a base the reference resolved against it, with the fragment
  emptied, the path \<^verbatim>\<open>/\<close> where it was empty and the host canonicalized where there is
  one; scheme, user, query and all else are as they were. So it has no fragment and a
  non-empty path, two links that differ in their fragment only have the same key, and
  admitting the second after the first changes nothing; with a base this holds when the two
  resolved references differ in their fragment only.
\<close>

theorem fragment_stripped:
  "enqueue_link l c link None =
     link\<lparr>Host := (if Host link = '''' then '''' else normalize_host c (Host link)),
          Path := (if Path link = '''' then ''/'' else Path link), Fragment := ''''\<rparr> \<and>
   enqueue_link l c link (Some b) =
     (url_ResolveReference l b link)
       \<lparr>Host := (if Host (url_ResolveReference l b link) = '''' then ''''
                 else normalize_host c (Host (url_ResolveReference l b link))),
        Path := (if Path (url_ResolveReference l b link) = '''' then ''/''
                 else Path (url_ResolveReference l b link)), Fragment := ''''\<rparr> \<and>
   Fragment (enqueue_link l c link base) = '''' \<and>
   Path (enqueue_link l c link base) \<noteq> '''' \<and>
   (Path link = '''' \<longrightarrow> Path (enqueue_link l c link None) = ''/'') \<and>
   (Path (url_ResolveReference l b link) = '''' \<longrightarrow> Path (enqueue_link l c link (Some b)) = ''/'') \<and>
   url_String l (enqueue_link l c (link\<lparr>Fragment := f\<rparr>) None) =
     url_String l (enqueue_link l c link None) \<and>
   enqueue l (enqueue l c link None) (link\<lparr>Fragment := f\<rparr>) None = enqueue l c link None \<and>
   ((url_ResolveReference l b link2)\<lparr>Fragment := ''''\<rparr> =
      (url_ResolveReference l b link)\<lparr>Fragment := ''''\<rparr> \<longrightarrow>
    enqueue l (enqueue l c link (Some b)) link2 (Some b) = enqueue l c link (Some b))"
proof (intro conjI impI)
  show "enqueue_link l c link None =
     link\<lparr>Host := (if Host link = '''' then '''' else normalize_host c (Host link)),
          Path := (if Path link = '''' then ''/'' else Path link), Fragment := ''''\<rparr>"
    by (simp add: enqueue_link_def Let_def)
  show "enqueue_link l c link (Some b) =
     (url_ResolveReference l b link)
       \<lparr>Host := (if Host (url_ResolveReference l b link) = '''' then ''''
                 else normalize_host c (Host (url_ResolveReference l b link))),
        Path := (if Path (url_ResolveReference l b link) = '''' then ''/''
                 else Path (url_ResolveReference l b link)), Fragment := ''''\<rparr>"
    by (simp add: enqueue_link_def Let_def)
  show "Fragment (enqueue_link l c link base) = ''''" by (rule enqueue_link_Fragment)
  show "Path (enqueue_link l c link base) \<noteq> ''''" by (rule enqueue_link_Path)
  show "Path (enqueue_link l c link None) = ''/''" if "Path link = ''''"
    using that by (simp add: enqueue_link_def Let_def)
  show "Path (enqueue_link l c link (Some b)) = ''/''" if "Path (url_ResolveReference l b link) = ''''"
    using that by (simp add: enqueue_link_def Let_def)
  show same: "url_String l (enqueue_link l c (link\<lparr>Fragment := f\<rparr>) None) =
      url_String l (enqueue_link l c link None)"
    by (simp add: enqueue_link_drop_Fragment)
  let ?c1 = "enqueue l c link None"
  have "enqueue_link l ?c1 (link\<lparr>Fragment := f\<rparr>) None = enqueue_link l c link None"
    using enqueue_link_www[OF www_enqueue] by (simp add: enqueue_link_drop_Fragment)
  then have "known ?c1 (url_String l (enqueue_link l ?c1 (link\<lparr>Fragment := f\<rparr>) None)) \<noteq> None"
    using known_after_enqueue[of l c link None] by simp
  then show "enqueue l ?c1 (link\<lparr>Fragment := f\<rparr>) None = ?c1" by (rule enqueue_known)
next
  assume r: "(url_ResolveReference l b link2)\<lparr>Fragment := ''''\<rparr> =
      (url_ResolveReference l b link)\<lparr>Fragment := ''''\<rparr>"
  let ?c1 = "enqueue l c link (Some b)"
  have "enqueue_link l c link2 (Some b) = enqueue_link l c link (Some b)"
    using r by (simp add: enqueue_link_def)
  then have "enqueue_link l ?c1 link2 (Some b) = enqueue_link l c link (Some b)"
    using enqueue_link_www[OF www_enqueue] by simp
  then have "known ?c1 (url_String l (enqueue_link l ?c1 link2 (Some b))) \<noteq> None"
    using known_after_enqueue[of l c link "Some b"] by simp
  then show "enqueue l ?c1 link2 (Some b) = ?c1" by (rule enqueue_known)
qed

text \<open>
  On the example: \<^verbatim>\<open>http://a.com/x#frag\<close> and \<^verbatim>\<open>http://a.com/x\<close> as parsed have the key
  \<^verbatim>\<open>http://a.com/x\<close>, which is known after the first call; the query of
  \<^verbatim>\<open>http://www.a.com/x?q=1#frag\<close> stays in the key; the empty path of \<^verbatim>\<open>http://a.com\<close>
  becomes \<^verbatim>\<open>/\<close>, with and without a base; and a link with a fragment resolved against
  the seed.
\<close>

theorem fragment_stripped_witness:
  "url_Parse demo_lib ''http://a.com/x#frag'' =
     Some ((demo_url ''http'' ''a.com'' ''/x'')\<lparr>Fragment := ''frag''\<rparr>) \<and>
   url_Parse demo_lib ''http://a.com/x'' = Some (demo_url ''http'' ''a.com'' ''/x'') \<and>
   url_String demo_lib (enqueue_link demo_lib demo_seeded
       ((demo_url ''http'' ''a.com'' ''/x'')\<lparr>Fragment := ''frag''\<rparr>) None) = ''http://a.com/x'' \<and>
   url_String demo_lib (enqueue_link demo_lib demo_seeded (demo_url ''http'' ''a.com'' ''/x'') None) =
     ''http://a.com/x'' \<and>
   known demo_seeded ''http://a.com/x'' = None \<and>
   known (enqueue demo_lib demo_seeded (demo_url ''http'' ''a.com'' ''/x'') None) ''http://a.com/x'' =
     Some True \<and>
   enqueue demo_lib (enqueue demo_lib demo_seeded (demo_url ''http'' ''a.com'' ''/x'') None)
       ((demo_url ''http'' ''a.com'' ''/x'')\<lparr>Fragment := ''frag''\<rparr>) None =
     enqueue demo_lib demo_seeded (demo_url ''http'' ''a.com'' ''/x'') None \<and>
   url_Parse demo_lib ''http://www.a.com/x?q=1#frag'' =
     Some ((demo_url ''http'' ''www.a.com'' ''/x'')\<lparr>RawQuery := ''q=1'', Fragment := ''frag''\<rparr>) \<and>
   enqueue_link demo_lib demo_seeded
       ((demo_url ''http'' ''www.a.com'' ''/x'')\<lparr>RawQuery := ''q=1'', Fragment := ''frag''\<rparr>) None =
     (demo_url ''http'' ''a.com'' ''/x'')\<lparr>RawQuery := ''q=1''\<rparr> \<and>
   url_String demo_lib (enqueue_link demo_lib demo_seeded
       ((demo_url ''http'' ''www.a.com'' ''/x'')\<lparr>RawQuery := ''q=1'', Fragment := ''frag''\<rparr>) None) =
     ''http://a.com/x?q=1'' \<and>
   url_Parse demo_lib ''http://a.com'' = Some (demo_url ''http'' ''a.com'' []) \<and>
   Path (demo_url ''http'' ''a.com'' []) = [] \<and>
   Path (enqueue_link demo_lib demo_seeded (demo_url ''http'' ''a.com'' []) None) = ''/'' \<and>
   url_String demo_lib (enqueue_link demo_lib demo_seeded (demo_url ''http'' ''a.com'' []) None) =
     ''http://a.com/'' \<and>
   Path (url_ResolveReference demo_lib (url demo_seed) (demo_url ''http'' ''a.com'' [])) = [] \<and>
   Path (enqueue_link demo_lib demo_seeded (demo_url ''http'' ''a.com'' []) (Some (url demo_seed))) =
     ''/'' \<and>
   (url_ResolveReference demo_lib (url demo_seed) demo_alias)\<lparr>Fragment := ''''\<rparr> =
     (url_ResolveReference demo_lib (url demo_seed) (demo_alias\<lparr>Fragment := ''''\<rparr>))\<lparr>Fragment := ''''\<rparr> \<and>
   url_String demo_lib (enqueue_link demo_lib demo_seeded demo_alias (Some (url demo_seed))) =
     ''http://example.com/about'' \<and>
   enqueue demo_lib (enqueue demo_lib demo_seeded (demo_alias\<lparr>Fragment := ''''\<rparr>) (Some (url demo_seed)))
       demo_alias (Some (url demo_seed)) =
     enqueue demo_lib demo_seeded (demo_alias\<lparr>Fragment := ''''\<rparr>) (Some (url demo_seed))"
proof -
  have p: "url_Parse demo_lib ''http://a.com/x#frag'' =
       Some ((demo_url ''http'' ''a.com'' ''/x'')\<lparr>Fragment := ''frag''\<rparr>)"
    "url_Parse demo_lib ''http://a.com/x'' = Some (demo_url ''http'' ''a.com'' ''/x'')"
    "url_Parse demo_lib ''http://a.com'' = Some (demo_url ''http'' ''a.com'' [])"
    "url_Parse demo_lib ''http://www.a.com/x?q=1#frag'' =
       Some ((demo_url ''http'' ''www.a.com'' ''/x'')\<lparr>RawQuery := ''q=1'', Fragment := ''frag''\<rparr>)"
    by (simp_all add: demo_defs)
  have e: "Path (demo_url ''http'' ''a.com'' []) = []" by (simp add: demo_url_def)
  have n: "normalize_host demo_seeded ''a.com'' = ''a.com''"
    "normalize_host demo_seeded ''www.a.com'' = ''a.com''"
    "normalize_host demo_seeded ''www.example.com'' = ''example.com''"
    by (simp_all add: normalize_host_def demo_seeded_def)
  have s: "url_String demo_lib (demo_url ''http'' ''a.com'' ''/x'') = ''http://a.com/x''"
    "url_String demo_lib ((demo_url ''http'' ''a.com'' ''/x'')\<lparr>RawQuery := ''q=1''\<rparr>) =
       ''http://a.com/x?q=1''"
    "url_String demo_lib (demo_url ''http'' ''a.com'' ''/'') = ''http://a.com/''"
    "url_String demo_lib (demo_url ''http'' ''example.com'' ''/about'') = ''http://example.com/about''"
    by (simp_all add: demo_defs)
  have k0: "known demo_seeded ''http://a.com/x'' = None" by (simp add: demo_seeded_def)
  have el: "enqueue_link demo_lib demo_seeded (demo_url ''http'' ''a.com'' ''/x'') None =
      demo_url ''http'' ''a.com'' ''/x''"
    "enqueue_link demo_lib demo_seeded
       ((demo_url ''http'' ''a.com'' ''/x'')\<lparr>Fragment := ''frag''\<rparr>) None =
      demo_url ''http'' ''a.com'' ''/x''"
    "enqueue_link demo_lib demo_seeded
       ((demo_url ''http'' ''www.a.com'' ''/x'')\<lparr>RawQuery := ''q=1'', Fragment := ''frag''\<rparr>) None =
     (demo_url ''http'' ''a.com'' ''/x'')\<lparr>RawQuery := ''q=1''\<rparr>"
    "enqueue_link demo_lib demo_seeded (demo_url ''http'' ''a.com'' []) None =
      demo_url ''http'' ''a.com'' ''/''"
    using fragment_stripped[of demo_lib demo_seeded "demo_url ''http'' ''a.com'' ''/x''" "url demo_seed"
        None "''frag''" demo_alias]
      fragment_stripped[of demo_lib demo_seeded
        "(demo_url ''http'' ''a.com'' ''/x'')\<lparr>Fragment := ''frag''\<rparr>" "url demo_seed"
        None "''frag''" demo_alias]
      fragment_stripped[of demo_lib demo_seeded
        "(demo_url ''http'' ''www.a.com'' ''/x'')\<lparr>RawQuery := ''q=1'', Fragment := ''frag''\<rparr>"
        "url demo_seed" None "''frag''" demo_alias]
      fragment_stripped[of demo_lib demo_seeded "demo_url ''http'' ''a.com'' []" "url demo_seed"
        None "''frag''" demo_alias]
    by (simp_all add: n demo_url_def)
  have k1: "known (enqueue demo_lib demo_seeded (demo_url ''http'' ''a.com'' ''/x'') None)
      ''http://a.com/x'' = Some True"
  proof -
    have d: "domains demo_seeded (Host (demo_url ''http'' ''a.com'' ''/x'')) \<noteq> Some True"
      and h: "Scheme (demo_url ''http'' ''a.com'' ''/x'') = ''http''"
      by (simp_all add: demo_seeded_def demo_url_def)
    have "enqueue demo_lib demo_seeded (demo_url ''http'' ''a.com'' ''/x'') None =
        report_ignored (demo_seeded\<lparr>known := (known demo_seeded)(''http://a.com/x'' \<mapsto> True)\<rparr>)
          (demo_url ''http'' ''a.com'' ''/x'') 0 (Text ''external domain'')"
      using enqueue_external[of demo_seeded demo_lib "demo_url ''http'' ''a.com'' ''/x''" None]
      unfolding el s using k0 d h by blast
    then show ?thesis by (simp add: report_ignored_def)
  qed
  have rr: "url_ResolveReference demo_lib (url demo_seed) (demo_url ''http'' ''a.com'' []) =
      demo_url ''http'' ''a.com'' []"
    "url_ResolveReference demo_lib (url demo_seed) demo_alias = demo_alias"
    by (simp_all add: demo_alias_def demo_seed_def demo_defs)
  have r: "(url_ResolveReference demo_lib (url demo_seed) demo_alias)\<lparr>Fragment := ''''\<rparr> =
     (url_ResolveReference demo_lib (url demo_seed) (demo_alias\<lparr>Fragment := ''''\<rparr>))\<lparr>Fragment := ''''\<rparr>"
    by (simp add: demo_alias_def demo_seed_def demo_defs)
  have ela: "enqueue_link demo_lib demo_seeded demo_alias (Some (url demo_seed)) =
      demo_url ''http'' ''example.com'' ''/about''"
  proof -
    have "enqueue_link demo_lib demo_seeded demo_alias (Some (url demo_seed)) =
       demo_alias\<lparr>Host := (if Host demo_alias = '''' then ''''
                             else normalize_host demo_seeded (Host demo_alias)),
                  Path := (if Path demo_alias = '''' then ''/'' else Path demo_alias),
                  Fragment := ''''\<rparr>"
      using fragment_stripped[of demo_lib demo_seeded demo_alias "url demo_seed" None "''frag''" demo_alias]
      unfolding rr by blast
    then show ?thesis by (simp add: n demo_alias_def demo_url_def)
  qed
  have a: "enqueue demo_lib (enqueue demo_lib demo_seeded (demo_url ''http'' ''a.com'' ''/x'') None)
       ((demo_url ''http'' ''a.com'' ''/x'')\<lparr>Fragment := ''frag''\<rparr>) None =
     enqueue demo_lib demo_seeded (demo_url ''http'' ''a.com'' ''/x'') None"
    using fragment_stripped[of demo_lib demo_seeded "demo_url ''http'' ''a.com'' ''/x''" "url demo_seed"
        None "''frag''" demo_alias]
    by blast
  have b: "Path (enqueue_link demo_lib demo_seeded (demo_url ''http'' ''a.com'' []) (Some (url demo_seed))) =
     ''/''"
    using fragment_stripped[of demo_lib demo_seeded "demo_url ''http'' ''a.com'' []" "url demo_seed"
        None "''frag''" demo_alias] rr(1) e
    by simp
  have c: "enqueue demo_lib (enqueue demo_lib demo_seeded (demo_alias\<lparr>Fragment := ''''\<rparr>) (Some (url demo_seed)))
       demo_alias (Some (url demo_seed)) =
     enqueue demo_lib demo_seeded (demo_alias\<lparr>Fragment := ''''\<rparr>) (Some (url demo_seed))"
    using fragment_stripped[of demo_lib demo_seeded "demo_alias\<lparr>Fragment := ''''\<rparr>" "url demo_seed"
        None "''frag''" demo_alias] r
    by blast
  show ?thesis
    unfolding el ela s using p e r k0 k1 rr(1) a b c by (simp add: demo_url_def)
qed

section \<open>One report and one decrement per task\<close>



section \<open>The status of ignored reports\<close>

text \<open>
  Claim C9. Every ignored report that a reporter holds in a run has status 0; so have the
  ignored reports that a call of \<^verbatim>\<open>enqueue\<close> or of \<^verbatim>\<open>process_url\<close> makes in any
  crawler; and a page answered with status 200 and a content type that is not
  \<^verbatim>\<open>text/html\<close> is reported ignored with status 0, not 200.
\<close>

theorem ignored_status_zero:
  "(crawl l c h \<and> r \<in> set (reporters c) \<and> e \<in> set r \<and> is_Ignored e \<longrightarrow> event_status e = 0) \<and>
   (\<forall>i < length (reporters c').
      \<forall>e \<in> set (new_events c' (enqueue l c' link base) i). is_Ignored e \<and> event_status e = 0) \<and>
   (\<forall>i < length (reporters c').
      \<forall>e \<in> set (new_events c' (fst (process_url l c' page)) i).
        is_Ignored e \<longrightarrow> event_status e = 0) \<and>
   (http_Get l (url_String l page) = Inr resp \<and> StatusCode resp = 200 \<and>
    \<not> prefix ''text/html'' (ContentType resp) \<longrightarrow>
      fst (process_url l c' page) =
        report_ignored c' page 0 (Text (''content-type: '' @ ContentType resp)))"
proof (intro conjI impI allI)
  assume "crawl l c h \<and> r \<in> set (reporters c) \<and> e \<in> set r \<and> is_Ignored e"
  then show "event_status e = 0" using crawl_ignored_zero by blast
next
  fix i assume "i < length (reporters c')"
  then show "\<forall>e \<in> set (new_events c' (enqueue l c' link base) i). is_Ignored e \<and> event_status e = 0"
    using admits_new_events[OF admits_enqueue] by blast
next
  fix i assume "i < length (reporters c')"
  then show "\<forall>e \<in> set (new_events c' (fst (process_url l c' page)) i).
      is_Ignored e \<longrightarrow> event_status e = 0"
    by (rule process_url_new_events)
next
  assume "http_Get l (url_String l page) = Inr resp \<and> StatusCode resp = 200 \<and>
    \<not> prefix ''text/html'' (ContentType resp)"
  then show "fst (process_url l c' page) =
      report_ignored c' page 0 (Text (''content-type: '' @ ContentType resp))"
    by (simp add: process_url_def Let_def)
qed

text \<open>On the example: the reports of the run, and the page \<^verbatim>\<open>/data\<close> served as JSON.\<close>

theorem ignored_status_zero_witness:
  "crawl demo_lib demo_crawled [demo_seed, demo_about] \<and>
   reporters demo_crawled ! 0 \<in> set (reporters demo_crawled) \<and>
   Ignored (demo_url ''http'' ''other.com'' ''/'') 0 (Text ''external domain'')
     \<in> set (reporters demo_crawled ! 0) \<and>
   is_Ignored (Ignored (demo_url ''http'' ''other.com'' ''/'') 0 (Text ''external domain'')) \<and>
   event_status (Ignored (demo_url ''http'' ''other.com'' ''/'') 0 (Text ''external domain'')) = 0 \<and>
   http_Get demo_lib (url_String demo_lib demo_data) =
     Inr \<lparr>StatusCode = 200, ContentType = ''application/json'', Body = ''{}''\<rparr> \<and>
   fst (process_url demo_lib demo_crawled demo_data) =
     report_ignored demo_crawled demo_data 0 (Text ''content-type: application/json'') \<and>
   new_events demo_crawled (fst (process_url demo_lib demo_crawled demo_data)) 0 =
     [Ignored demo_data 0 (Text ''content-type: application/json'')]"
proof -
  have g: "http_Get demo_lib (url_String demo_lib demo_data) =
     Inr \<lparr>StatusCode = 200, ContentType = ''application/json'', Body = ''{}''\<rparr>"
    by (simp add: demo_data_def demo_defs)
  have r: "reporters demo_crawled ! 0 \<in> set (reporters demo_crawled)"
    "Ignored (demo_url ''http'' ''other.com'' ''/'') 0 (Text ''external domain'')
       \<in> set (reporters demo_crawled ! 0)"
    by (simp_all add: demo_crawled_def)
  have p: "prefix ''text/html'' ''application/json'' = False" by simp
  have n2: "fst (process_url demo_lib demo_crawled demo_data) =
      report_ignored demo_crawled demo_data 0 (Text ''content-type: application/json'') \<Longrightarrow>
    new_events demo_crawled (fst (process_url demo_lib demo_crawled demo_data)) 0 =
     [Ignored demo_data 0 (Text ''content-type: application/json'')]"
    by (simp add: new_events_def report_ignored_def demo_crawled_def)
  show ?thesis
    using demo_crawl r g n2 p
      ignored_status_zero[of demo_lib demo_crawled "[demo_seed, demo_about]"
        "reporters demo_crawled ! 0"
        "Ignored (demo_url ''http'' ''other.com'' ''/'') 0 (Text ''external domain'')"
        demo_crawled demo_data None demo_data
        "\<lparr>StatusCode = 200, ContentType = ''application/json'', Body = ''{}''\<rparr>"]
    by simp
qed

section \<open>The known-set\<close>




end
